theory Spec2Isabelle
  imports Main
begin

section \<open>A model of \<^verbatim>\<open>pre_commit_dune_format_dune_file/format.py\<close>\<close>

text \<open>
  The program validates its path arguments, runs the external command
  \<^verbatim>\<open>dune format-dune-file\<close> on each of them, and either prints the formatted text or, with
  \<^verbatim>\<open>-i\<close>, stages it in temporary files and copies these over the originals once every file
  has been formatted.

  What lies outside the program is made explicit. The file system is a finite map from
  path strings to nodes; distinct path strings denote distinct files (no links, no
  \<^verbatim>\<open>./\<close> aliases). The external processes are read from an environment record: each path is
  handed to the formatter at most once in a run, so a function from the path to what
  \<^verbatim>\<open>subprocess.run\<close> did there loses no generality; the formatter itself does not change the
  file system. Exceptions are values of a sum type. Logging goes to standard error and
  has no other effect; it is left out, and so is \<^verbatim>\<open>--verbose-pre-commit-dune-format-dune-file\<close>,
  which only sets the log level. File contents and captured output are Python text
  strings. Command lines enter the model after \<^verbatim>\<open>argparse\<close> has produced the namespace.
\<close>

subsection \<open>Exceptions and subprocess results\<close>

datatype exn =
    KeyboardInterrupt
  | TypeError
  | PermissionError
  | FileNotFoundError
  | FileExistsError
  | IsADirectoryError
  | UnboundLocalError
  | UnicodeDecodeError
  | OSError

text \<open>\<^verbatim>\<open>KeyboardInterrupt\<close> derives from \<^verbatim>\<open>BaseException\<close> only; the others derive from
  \<^verbatim>\<open>Exception\<close>.\<close>

fun is_Exception :: "exn \<Rightarrow> bool" where
  "is_Exception KeyboardInterrupt = False"
| "is_Exception _ = True"

text \<open>What a call of \<^verbatim>\<open>subprocess.run\<close> without \<^verbatim>\<open>check\<close> does: the process completes with a
  return code and captured standard output, or the call raises.\<close>

datatype outcome = Completed int string | Raised exn

subsection \<open>The file system\<close>

type_synonym path = string

text \<open>A regular file has its text, a read permission and a write permission for the
  running process; anything else (a directory, a device) has the permissions only.\<close>

datatype node = Regular string bool bool | Special bool bool

type_synonym filesystem = "path \<rightharpoonup> node"

definition isfile :: "filesystem \<Rightarrow> path \<Rightarrow> bool" where
  "isfile f p = (case f p of Some (Regular c r wr) \<Rightarrow> True | _ \<Rightarrow> False)"

definition access_R_OK :: "filesystem \<Rightarrow> path \<Rightarrow> bool" where
  "access_R_OK f p =
     (case f p of None \<Rightarrow> False | Some (Regular c r wr) \<Rightarrow> r | Some (Special r wr) \<Rightarrow> r)"

definition access_W_OK :: "filesystem \<Rightarrow> path \<Rightarrow> bool" where
  "access_W_OK f p =
     (case f p of None \<Rightarrow> False | Some (Regular c r wr) \<Rightarrow> wr | Some (Special r wr) \<Rightarrow> wr)"

text \<open>\<^verbatim>\<open>Path.name\<close> is \<^verbatim>\<open>os.path.basename\<close>: what follows the last slash.\<close>

definition basename :: "path \<Rightarrow> string" where
  "basename p = rev (takeWhile (\<lambda>c. c \<noteq> CHR ''/'') (rev p))"

subsection \<open>The world the program runs in\<close>

text \<open>
  \<open>fs\<close> and \<open>stdout\<close> are what the program can change. \<open>names\<close> are the random names
  \<^verbatim>\<open>tempfile\<close> will draw, in order. \<open>created\<close> lists the files made inside the temporary
  directory, which \<^verbatim>\<open>mkdtemp\<close> made empty for this run. \<open>calls\<close> and \<open>writes\<close> only record
  what happened: the formatter invocations with their results, and the text written to
  each file opened for writing.
\<close>

record world =
  fs :: filesystem
  stdout :: string
  names :: "string list"
  created :: "path list"
  calls :: "(path \<times> outcome) list"
  writes :: "(path \<times> string) list"

text \<open>
  \<open>which_dune\<close> is the result of \<^verbatim>\<open>shutil.which("dune")\<close>; \<open>format_dune_file p\<close> is what
  running \<^verbatim>\<open>dune format-dune-file p\<close> does and \<open>format_dune_file_version\<close> what running it with
  \<^verbatim>\<open>--version\<close> does; \<open>tool_version\<close> is \<^verbatim>\<open>__version__\<close> of the module \<^verbatim>\<open>_version\<close>;
  \<open>tmp_dir\<close> is the directory \<^verbatim>\<open>mkdtemp\<close> returns.
\<close>

record env =
  which_dune :: "path option"
  format_dune_file :: "path \<Rightarrow> outcome"
  format_dune_file_version :: outcome
  tool_version :: string
  tmp_dir :: path

text \<open>The namespace \<^verbatim>\<open>argparse\<close> returns (the verbosity flag apart).\<close>

record args =
  version :: bool
  save_dune_temps :: bool
  in_place :: bool
  dune_files :: "path list"

subsection \<open>Library operations\<close>

text \<open>\<^verbatim>\<open>print(s, end="")\<close> and \<^verbatim>\<open>print(s)\<close>.\<close>

definition print_end :: "string \<Rightarrow> world \<Rightarrow> world" where
  "print_end s w = w\<lparr>stdout := stdout w @ s\<rparr>"

definition print :: "string \<Rightarrow> world \<Rightarrow> world" where
  "print s w = print_end (s @ [CHR 0x0A]) w"

text \<open>\<^verbatim>\<open>open(p)\<close> followed by \<^verbatim>\<open>read()\<close>.\<close>

definition read_text :: "path \<Rightarrow> world \<Rightarrow> exn + string" where
  "read_text p w =
     (case fs w p of
        None \<Rightarrow> Inl FileNotFoundError
      | Some (Special r wr) \<Rightarrow> Inl IsADirectoryError
      | Some (Regular c r wr) \<Rightarrow> if r then Inr c else Inl PermissionError)"

text \<open>\<^verbatim>\<open>open(p, "w")\<close>: the file is created if it is missing and emptied if it is there.\<close>

definition open_w :: "path \<Rightarrow> world \<Rightarrow> (exn + unit) \<times> world" where
  "open_w p w =
     (case fs w p of
        None \<Rightarrow> (Inr (), w\<lparr>fs := (fs w)(p \<mapsto> Regular [] True True)\<rparr>)
      | Some (Special r wr) \<Rightarrow> (Inl IsADirectoryError, w)
      | Some (Regular c r wr) \<Rightarrow>
          if wr then (Inr (), w\<lparr>fs := (fs w)(p \<mapsto> Regular [] r wr)\<rparr>)
          else (Inl PermissionError, w))"

text \<open>\<^verbatim>\<open>f.write(s)\<close> on a file just opened with \<^verbatim>\<open>"w"\<close>, and its close.\<close>

definition file_write :: "path \<Rightarrow> string \<Rightarrow> world \<Rightarrow> world" where
  "file_write p s w =
     (case fs w p of
        Some (Regular c r wr) \<Rightarrow>
          w\<lparr>fs := (fs w)(p \<mapsto> Regular s r wr), writes := writes w @ [(p, s)]\<rparr>
      | _ \<Rightarrow> w)"

text \<open>
  \<^verbatim>\<open>tempfile.NamedTemporaryFile(mode="w", dir=d, prefix=pre, delete=False).name\<close>: the
  first drawn name whose path does not exist yet is created, empty, readable and
  writable; \<^verbatim>\<open>FileExistsError\<close> when the names run out.
\<close>

fun unused_name :: "filesystem \<Rightarrow> string \<Rightarrow> string list \<Rightarrow> (path \<times> string list) option" where
  "unused_name f stem [] = None"
| "unused_name f stem (n # ns) =
     (if f (stem @ n) = None then Some (stem @ n, ns) else unused_name f stem ns)"

definition NamedTemporaryFile :: "path \<Rightarrow> string \<Rightarrow> world \<Rightarrow> (exn + path) \<times> world" where
  "NamedTemporaryFile d pre w =
     (case unused_name (fs w) (d @ ''/'' @ pre) (names w) of
        None \<Rightarrow> (Inl FileExistsError, w\<lparr>names := []\<rparr>)
      | Some (p, ns) \<Rightarrow>
          (Inr p, w\<lparr>fs := (fs w)(p \<mapsto> Regular [] True True),
                    names := ns, created := created w @ [p]\<rparr>))"

text \<open>A Python \<^verbatim>\<open>dict\<close> keeps its keys in the order of their first insertion; storing under
  a key that is there replaces the value where it stands.\<close>

fun dict_set :: "('k \<times> 'v) list \<Rightarrow> 'k \<Rightarrow> 'v \<Rightarrow> ('k \<times> 'v) list" where
  "dict_set [] k v = [(k, v)]"
| "dict_set ((k', v') # m) k v =
     (if k' = k then (k, v) # m else (k', v') # dict_set m k v)"

subsection \<open>The program\<close>

definition program_name :: string where
  "program_name = ''pre-commit-dune-format-dune-file''"

definition dune_get_exe :: "env \<Rightarrow> exn + path" where
  "dune_get_exe e = (case which_dune e of None \<Rightarrow> Inl FileNotFoundError | Some p \<Rightarrow> Inr p)"

definition dune_file_names :: "string list" where
  "dune_file_names = [''dune'', ''dune-project'', ''dune-workspace'']"

definition get_dune_file_path :: "filesystem \<Rightarrow> path \<Rightarrow> exn + path option" where
  "get_dune_file_path f arg =
     (if isfile f arg \<and> basename arg \<in> set dune_file_names then
        if \<not> access_R_OK f arg then Inl PermissionError
        else if \<not> access_W_OK f arg then Inl PermissionError
        else Inr (Some arg)
      else Inr None)"

text \<open>\<^verbatim>\<open>SaveableTempDir.__exit__\<close>: unless \<open>save\<close>, the directory goes with all it holds.\<close>

definition SaveableTempDir_exit :: "bool \<Rightarrow> world \<Rightarrow> world" where
  "SaveableTempDir_exit save w =
     (if save then w else w\<lparr>fs := fs w |` (- set (created w)), created := []\<rparr>)"

text \<open>The first loop of \<^verbatim>\<open>real_main\<close> (lines 111 to 130): resolve each argument and, in
  place, give it a temporary file.\<close>

fun resolve_loop ::
  "path \<Rightarrow> bool \<Rightarrow> path list \<Rightarrow> (path \<times> path option) list \<Rightarrow> world
     \<Rightarrow> (exn + (path \<times> path option) list) \<times> world" where
  "resolve_loop d ip [] m w = (Inr m, w)"
| "resolve_loop d ip (should_be_dune_file # rest) m w =
     (case get_dune_file_path (fs w) should_be_dune_file of
        Inl x \<Rightarrow> (Inl x, w)
      | Inr None \<Rightarrow> (Inl TypeError, w)
      | Inr (Some orig_dune_file) \<Rightarrow>
          if ip then
            (case NamedTemporaryFile d (basename orig_dune_file @ ''-formatted-'') w of
               (Inl x, w') \<Rightarrow> (Inl x, w')
             | (Inr this_tmp_dune_file, w') \<Rightarrow>
                 resolve_loop d ip rest (dict_set m orig_dune_file (Some this_tmp_dune_file)) w')
          else resolve_loop d ip rest (dict_set m orig_dune_file None) w)"

text \<open>
  The second loop (lines 132 to 168). \<open>df_res\<close> is the standard output of the last
  successful call, \<open>None\<close> while the variable is unbound. The result \<open>Inr (Some c)\<close> is
  \<^verbatim>\<open>return c\<close>; \<open>Inr None\<close> is the end of the loop.
\<close>

fun format_loop ::
  "env \<Rightarrow> bool \<Rightarrow> (path \<times> path option) list \<Rightarrow> string option \<Rightarrow> world
     \<Rightarrow> (exn + int option) \<times> world" where
  "format_loop e ip [] df_res w = (Inr None, w)"
| "format_loop e ip ((orig_dune_file, tmp_dune_file) # rest) df_res w =
     (case dune_get_exe e of
        Inl x \<Rightarrow> (Inl x, w)
      | Inr exe \<Rightarrow>
          let r = format_dune_file e orig_dune_file;
              w1 = w\<lparr>calls := calls w @ [(orig_dune_file, r)]\<rparr>
          in (case r of
                Raised x \<Rightarrow>
                  if is_Exception x then
                    (case df_res of
                       None \<Rightarrow> (Inl UnboundLocalError, w1)
                     | Some s \<Rightarrow> (Inr (Some 1), w1))
                  else (Inl x, w1)
              | Completed returncode out \<Rightarrow>
                  if returncode \<noteq> 0 then (Inr (Some returncode), w1)
                  else if ip then
                    (case tmp_dune_file of
                       None \<Rightarrow> (Inl FileNotFoundError, w1)
                     | Some t \<Rightarrow>
                         (case open_w t w1 of
                            (Inl x, w2) \<Rightarrow> (Inl x, w2)
                          | (Inr u, w2) \<Rightarrow>
                              let w3 = file_write t out w2
                              in (case read_text t w3 of
                                    Inl x \<Rightarrow> (Inl x, w3)
                                  | Inr logged \<Rightarrow> format_loop e ip rest (Some out) w3)))
                  else format_loop e ip rest (Some out) (print_end out w1)))"

text \<open>The third loop (lines 174 to 183). The original is opened for writing, and so
  emptied, before the temporary file is read.\<close>

fun commit_loop :: "(path \<times> path option) list \<Rightarrow> world \<Rightarrow> (exn + unit) \<times> world" where
  "commit_loop [] w = (Inr (), w)"
| "commit_loop ((orig_dune_file, tmp_dune_file) # rest) w =
     (case tmp_dune_file of
        None \<Rightarrow> (Inl FileNotFoundError, w)
      | Some t \<Rightarrow>
          (case read_text t w of
             Inl x \<Rightarrow> (Inl x, w)
           | Inr u \<Rightarrow>
               (case open_w orig_dune_file w of
                  (Inl x, w1) \<Rightarrow> (Inl x, w1)
                | (Inr u', w1) \<Rightarrow>
                    (case read_text t w1 of
                       Inl x \<Rightarrow> (Inl x, w1)
                     | Inr s \<Rightarrow> commit_loop rest (file_write orig_dune_file s w1)))))"

text \<open>The body of the \<^verbatim>\<open>with\<close> statement (lines 110 to 183).\<close>

definition with_body :: "env \<Rightarrow> args \<Rightarrow> world \<Rightarrow> (exn + int) \<times> world" where
  "with_body e a w =
     (case resolve_loop (tmp_dir e) (in_place a) (dune_files a) [] w of
        (Inl x, w1) \<Rightarrow> (Inl x, w1)
      | (Inr orig_dune_to_tmp_dune, w1) \<Rightarrow>
          (case format_loop e (in_place a) orig_dune_to_tmp_dune None w1 of
             (Inl x, w2) \<Rightarrow> (Inl x, w2)
           | (Inr (Some c), w2) \<Rightarrow> (Inr c, w2)
           | (Inr None, w2) \<Rightarrow>
               if in_place a then
                 (case commit_loop orig_dune_to_tmp_dune w2 of
                    (Inl x, w3) \<Rightarrow> (Inl x, w3)
                  | (Inr u, w3) \<Rightarrow> (Inr 0, w3))
               else (Inr 0, w2)))"

definition real_main :: "env \<Rightarrow> args \<Rightarrow> world \<Rightarrow> (exn + int) \<times> world" where
  "real_main e a w =
     (if version a then
        let w1 = print (program_name @ '' version: '' @ tool_version e) w
        in (case dune_get_exe e of
              Inl x \<Rightarrow> (Inl x, w1)
            | Inr exe \<Rightarrow>
                (case format_dune_file_version e of
                   Raised x \<Rightarrow> (Inl x, w1)
                 | Completed returncode out \<Rightarrow>
                     (Inr 0, print_end (''dune format-dune-file version: '' @ out) w1)))
      else
        (case with_body e a w of
           (r, w') \<Rightarrow> (r, SaveableTempDir_exit (save_dune_temps a) w')))"

text \<open>\<^verbatim>\<open>main\<close>: an \<^verbatim>\<open>Exception\<close> becomes exit code 1, a \<^verbatim>\<open>KeyboardInterrupt\<close> exit code 0.\<close>

definition main :: "env \<Rightarrow> args \<Rightarrow> world \<Rightarrow> int \<times> world" where
  "main e a w =
     (case real_main e a w of
        (Inr c, w') \<Rightarrow> (c, w')
      | (Inl x, w') \<Rightarrow> (if is_Exception x then 1 else 0, w'))"

text \<open>A run starts with nothing printed and nothing recorded.\<close>

definition start :: "filesystem \<Rightarrow> string list \<Rightarrow> world" where
  "start f ns = \<lparr>fs = f, stdout = [], names = ns, created = [], calls = [], writes = []\<rparr>"

definition run :: "env \<Rightarrow> args \<Rightarrow> filesystem \<Rightarrow> string list \<Rightarrow> int \<times> world" where
  "run e a f ns = main e a (start f ns)"

subsection \<open>Notions used to state the properties\<close>

text \<open>The keys of a \<^verbatim>\<open>dict\<close> after the elements of a list were stored in turn: each element
  once, where it came first.\<close>

definition add_key :: "'a list \<Rightarrow> 'a \<Rightarrow> 'a list" where
  "add_key ks k = (if k \<in> set ks then ks else ks @ [k])"

definition insertion_order :: "'a list \<Rightarrow> 'a list" where
  "insertion_order xs = foldl add_key [] xs"

text \<open>A valid input file is a path the resolver returns.\<close>

definition valid_dune_file :: "filesystem \<Rightarrow> path \<Rightarrow> bool" where
  "valid_dune_file f p = (get_dune_file_path f p = Inr (Some p))"

text \<open>A path that the resolver will not return however many temporary files are created
  first: its name is wrong, or it exists and is refused.\<close>

definition unresolvable :: "filesystem \<Rightarrow> path \<Rightarrow> bool" where
  "unresolvable f p =
     (basename p \<notin> set dune_file_names \<or> (f p \<noteq> None \<and> get_dune_file_path f p \<noteq> Inr (Some p)))"

text \<open>The text of a regular file, and the standard output a call captured.\<close>

definition file_text :: "filesystem \<Rightarrow> path \<Rightarrow> string option" where
  "file_text f p = (case f p of Some (Regular c r wr) \<Rightarrow> Some c | _ \<Rightarrow> None)"

fun captured :: "outcome \<Rightarrow> string" where
  "captured (Completed returncode out) = out"
| "captured (Raised x) = []"

subsection \<open>The loop bodies by themselves, and the staging invariant\<close>

text \<open>One pass through the body of the second loop: \<open>Inl r\<close> when the pass leaves
  \<^verbatim>\<open>real_main\<close> with \<open>r\<close>, \<open>Inr out\<close> when the loop goes on with \<open>out\<close> as the last output.\<close>

definition format_step ::
  "env \<Rightarrow> bool \<Rightarrow> path \<Rightarrow> path option \<Rightarrow> string option \<Rightarrow> world
     \<Rightarrow> ((exn + int option) + string) \<times> world" where
  "format_step e ip orig_dune_file tmp_dune_file df_res w =
     (case dune_get_exe e of
        Inl x \<Rightarrow> (Inl (Inl x), w)
      | Inr exe \<Rightarrow>
          let r = format_dune_file e orig_dune_file;
              w1 = w\<lparr>calls := calls w @ [(orig_dune_file, r)]\<rparr>
          in (case r of
                Raised x \<Rightarrow>
                  if is_Exception x then
                    (case df_res of
                       None \<Rightarrow> (Inl (Inl UnboundLocalError), w1)
                     | Some s \<Rightarrow> (Inl (Inr (Some 1)), w1))
                  else (Inl (Inl x), w1)
              | Completed returncode out \<Rightarrow>
                  if returncode \<noteq> 0 then (Inl (Inr (Some returncode)), w1)
                  else if ip then
                    (case tmp_dune_file of
                       None \<Rightarrow> (Inl (Inl FileNotFoundError), w1)
                     | Some t \<Rightarrow>
                         (case open_w t w1 of
                            (Inl x, w2) \<Rightarrow> (Inl (Inl x), w2)
                          | (Inr u, w2) \<Rightarrow>
                              let w3 = file_write t out w2
                              in (case read_text t w3 of
                                    Inl x \<Rightarrow> (Inl (Inl x), w3)
                                  | Inr logged \<Rightarrow> (Inr out, w3))))
                  else (Inr out, print_end out w1)))"

text \<open>What the result of the loop must be once a call has ended with \<open>r\<close>, unless \<open>r\<close>
  is a success.\<close>

fun ends_with :: "outcome \<Rightarrow> (exn + int option) \<Rightarrow> bool" where
  "ends_with (Completed returncode out) r = (returncode \<noteq> 0 \<longrightarrow> r = Inr (Some returncode))"
| "ends_with (Raised x) r =
     (if is_Exception x then r = Inl UnboundLocalError \<or> r = Inr (Some 1) else r = Inl x)"

text \<open>One pass through the body of the third loop.\<close>

definition commit_step :: "path \<Rightarrow> path option \<Rightarrow> world \<Rightarrow> (exn + unit) \<times> world" where
  "commit_step orig_dune_file tmp_dune_file w =
     (case tmp_dune_file of
        None \<Rightarrow> (Inl FileNotFoundError, w)
      | Some t \<Rightarrow>
          (case read_text t w of
             Inl x \<Rightarrow> (Inl x, w)
           | Inr u \<Rightarrow>
               (case open_w orig_dune_file w of
                  (Inl x, w1) \<Rightarrow> (Inl x, w1)
                | (Inr u', w1) \<Rightarrow>
                    (case read_text t w1 of
                       Inl x \<Rightarrow> (Inl x, w1)
                     | Inr s \<Rightarrow> (Inr (), file_write orig_dune_file s w1)))))"

text \<open>The invariant of the first loop in place: the file system still holds the files of
  \<open>f\<close>; the files created so far are new and exist; each key has a temporary file of its
  own among them.\<close>

definition staged :: "filesystem \<Rightarrow> (path \<times> path option) list \<Rightarrow> world \<Rightarrow> bool" where
  "staged f m w =
     ((\<forall>q. f q \<noteq> None \<longrightarrow> fs w q = f q)
      \<and> (\<forall>t \<in> set (created w). f t = None \<and> fs w t \<noteq> None)
      \<and> (\<forall>v \<in> snd ` set m. \<exists>t. v = Some t \<and> t \<in> set (created w))
      \<and> distinct (map snd m) \<and> distinct (map fst m))"

subsection \<open>A small file system and formatter, for worked runs\<close>

definition ex_format :: "path \<Rightarrow> outcome" where
  "ex_format p =
     (if p = ''dune'' then Completed 0 ''(library (name foo))''
      else if p = ''src/dune'' then Completed 0 ''(executable (name main))''
      else if p = ''dune-project'' then Completed 2 ''Error: unclosed parenthesis''
      else if p = ''lib/dune'' then Raised OSError
      else if p = ''bin/dune'' then Raised KeyboardInterrupt
      else Completed 1 [])"

definition ex_env :: env where
  "ex_env = \<lparr>which_dune = Some ''/usr/bin/dune'', format_dune_file = ex_format,
     format_dune_file_version = Completed 0 ''3.16.0'', tool_version = ''0.1.0'',
     tmp_dir = ''/tmp/t''\<rparr>"

definition ex_fs :: filesystem where
  "ex_fs =
     [''dune'' \<mapsto> Regular ''(library(name foo))'' True True,
      ''src/dune'' \<mapsto> Regular ''(executable(name main))'' True True,
      ''dune-project'' \<mapsto> Regular ''(lang dune 3.0'' True True,
      ''lib/dune'' \<mapsto> Regular [] True True,
      ''bin/dune'' \<mapsto> Regular [] True True,
      ''ro/dune'' \<mapsto> Regular ''(rule)'' True False,
      ''wo/dune'' \<mapsto> Regular ''(rule)'' False True,
      ''BUILD.bazel'' \<mapsto> Regular [] False False,
      ''dune-workspace'' \<mapsto> Special True True]"

definition ex_args :: "bool \<Rightarrow> path list \<Rightarrow> args" where
  "ex_args ip xs = \<lparr>version = False, save_dune_temps = False, in_place = ip, dune_files = xs\<rparr>"

definition ex_names :: "string list" where
  "ex_names = [''k1'', ''k2'', ''k3'']"

section \<open>Properties\<close>

subsection \<open>Library operations\<close>

lemma open_w_frame:
  assumes "open_w p w = (r, w')"
  shows "stdout w' = stdout w" "names w' = names w" "created w' = created w"
    "calls w' = calls w" "writes w' = writes w" "q \<noteq> p \<Longrightarrow> fs w' q = fs w q"
  using assms by (auto simp: open_w_def split: option.splits node.splits if_splits)

lemma open_w_Inr:
  assumes "open_w p w = (Inr u, w')"
  shows "\<exists>r wr. fs w' p = Some (Regular [] r wr) \<and> (fs w p = None \<or> (\<exists>c. fs w p = Some (Regular c r wr)))"
  using assms by (auto simp: open_w_def split: option.splits node.splits if_splits)

lemma open_w_Inl:
  assumes "open_w p w = (Inl x, w')"
  shows "w' = w" "is_Exception x"
  using assms by (auto simp: open_w_def split: option.splits node.splits if_splits)

lemma file_write_frame:
  shows "stdout (file_write p s w) = stdout w" "names (file_write p s w) = names w"
    "created (file_write p s w) = created w" "calls (file_write p s w) = calls w"
    "q \<noteq> p \<Longrightarrow> fs (file_write p s w) q = fs w q"
  by (auto simp: file_write_def split: option.splits node.splits)

lemma file_write_Regular:
  "fs w p = Some (Regular c r wr) \<Longrightarrow> fs (file_write p s w) p = Some (Regular s r wr)"
  "fs w p = Some (Regular c r wr) \<Longrightarrow> writes (file_write p s w) = writes w @ [(p, s)]"
  by (auto simp: file_write_def)

lemma read_text_Inr:
  "read_text p w = Inr s \<Longrightarrow> \<exists>wr. fs w p = Some (Regular s True wr)"
  by (auto simp: read_text_def split: option.splits node.splits if_splits)

lemma read_text_Inl: "read_text p w = Inl x \<Longrightarrow> is_Exception x"
  by (auto simp: read_text_def split: option.splits node.splits if_splits)

lemma print_end_frame:
  "fs (print_end s w) = fs w" "names (print_end s w) = names w"
  "created (print_end s w) = created w" "calls (print_end s w) = calls w"
  "writes (print_end s w) = writes w" "stdout (print_end s w) = stdout w @ s"
  by (simp_all add: print_end_def)

lemma unused_name_Some:
  "unused_name f stem ns = Some (p, ns') \<Longrightarrow> f p = None"
  by (induction ns) (auto split: if_splits)

lemma NamedTemporaryFile_frame:
  assumes "NamedTemporaryFile d pre w = (r, w')"
  shows "stdout w' = stdout w" "calls w' = calls w" "writes w' = writes w"
    "fs w q \<noteq> None \<Longrightarrow> fs w' q = fs w q"
  using assms unused_name_Some [of "fs w" "d @ ''/'' @ pre" "names w"]
  by (auto simp: NamedTemporaryFile_def split: option.splits)

lemma NamedTemporaryFile_Inr:
  assumes "NamedTemporaryFile d pre w = (Inr t, w')"
  shows "fs w t = None" "fs w' = (fs w)(t \<mapsto> Regular [] True True)" "created w' = created w @ [t]"
  using assms
  by (auto simp: NamedTemporaryFile_def split: option.splits dest: unused_name_Some)

lemma NamedTemporaryFile_Inl:
  assumes "NamedTemporaryFile d pre w = (Inl x, w')"
  shows "x = FileExistsError" "fs w' = fs w" "created w' = created w"
  using assms
  by (auto simp: NamedTemporaryFile_def split: option.splits)

subsection \<open>The resolver and the first loop\<close>

lemma get_dune_file_path_cong:
  "f p = g p \<Longrightarrow> get_dune_file_path f p = get_dune_file_path g p"
  by (simp add: get_dune_file_path_def isfile_def access_R_OK_def access_W_OK_def)

lemma get_dune_file_path_Some:
  assumes "get_dune_file_path f p = Inr (Some q)"
  shows "q = p" "\<exists>c. f p = Some (Regular c True True)" "basename p \<in> set dune_file_names"
  using assms
  by (auto simp: get_dune_file_path_def isfile_def access_R_OK_def access_W_OK_def
      split: if_splits option.splits node.splits)

lemma get_dune_file_path_Inl:
  assumes "get_dune_file_path f p = Inl x"
  shows "x = PermissionError" "isfile f p" "basename p \<in> set dune_file_names"
  using assms by (auto simp: get_dune_file_path_def split: if_splits)

lemma unresolvable_update:
  assumes "unresolvable f p" "f t = None"
  shows "unresolvable (f(t \<mapsto> n)) p"
proof (cases "basename p \<in> set dune_file_names")
  case False
  then show ?thesis by (simp add: unresolvable_def)
next
  case True
  with assms have p: "f p \<noteq> None" "get_dune_file_path f p \<noteq> Inr (Some p)"
    by (auto simp: unresolvable_def)
  with assms(2) have "t \<noteq> p" by auto
  then have "(f(t \<mapsto> n)) p = f p" by simp
  then show ?thesis
    using p get_dune_file_path_cong [of "f(t \<mapsto> n)" p f] by (simp add: unresolvable_def)
qed

lemma unresolvable_not_Some:
  "unresolvable f p \<Longrightarrow> get_dune_file_path f p \<noteq> Inr (Some q)"
  by (auto simp: unresolvable_def dest: get_dune_file_path_Some)

lemma resolve_loop_frame:
  assumes "resolve_loop d ip xs m w = (r, w')"
  shows "stdout w' = stdout w \<and> calls w' = calls w \<and> writes w' = writes w
    \<and> (\<forall>q. fs w q \<noteq> None \<longrightarrow> fs w' q = fs w q)"
  using assms
proof (induction xs arbitrary: m w)
  case Nil
  then show ?case by simp
next
  case (Cons x xs)
  show ?case
  proof (cases "get_dune_file_path (fs w) x")
    case (Inl ex)
    with Cons.prems show ?thesis by simp
  next
    case (Inr o1)
    show ?thesis
    proof (cases o1)
      case None
      with Inr Cons.prems show ?thesis by simp
    next
      case (Some orig)
      show ?thesis
      proof (cases ip)
        case False
        with Some Inr Cons.prems Cons.IH show ?thesis by simp
      next
        case True
        obtain r1 w1 where nt: "NamedTemporaryFile d (basename orig @ ''-formatted-'') w = (r1, w1)"
          by (cases "NamedTemporaryFile d (basename orig @ ''-formatted-'') w")
        note fr = NamedTemporaryFile_frame [OF nt]
        show ?thesis
        proof (cases r1)
          case (Inl ex)
          with nt True Some Inr Cons.prems have "w' = w1" by simp
          with fr show ?thesis by simp
        next
          case (Inr t)
          with nt True Some \<open>get_dune_file_path (fs w) x = Inr o1\<close> Cons.prems
          have "resolve_loop d ip xs (dict_set m orig (Some t)) w1 = (r, w')" by simp
          from Cons.IH [OF this] fr show ?thesis by auto
        qed
      qed
    qed
  qed
qed

lemma resolve_loop_stream:
  "resolve_loop d False xs m w = (r, w') \<Longrightarrow> w' = w"
  by (induction xs arbitrary: m) (auto split: sum.splits option.splits)

lemma resolve_loop_Inl:
  "resolve_loop d ip xs m w = (Inl x, w') \<Longrightarrow> x \<in> {TypeError, PermissionError, FileExistsError}"
proof (induction xs arbitrary: m w)
  case Nil
  then show ?case by simp
next
  case (Cons a xs)
  then show ?case
    by (auto split: sum.splits option.splits if_splits prod.splits
        dest: get_dune_file_path_Inl NamedTemporaryFile_Inl)
qed

lemma resolve_loop_unresolvable:
  assumes "p \<in> set xs" "unresolvable (fs w) p"
  shows "\<exists>x w'. resolve_loop d ip xs m w = (Inl x, w')"
  using assms
proof (induction xs arbitrary: m w)
  case Nil
  then show ?case by simp
next
  case (Cons a xs)
  show ?case
  proof (cases "get_dune_file_path (fs w) a")
    case (Inl ex)
    then show ?thesis by simp
  next
    case (Inr o1)
    show ?thesis
    proof (cases o1)
      case None
      with Inr show ?thesis by simp
    next
      case (Some orig)
      with Inr Cons.prems unresolvable_not_Some have "a \<noteq> p" by auto
      with Cons.prems have p: "p \<in> set xs" by simp
      show ?thesis
      proof (cases ip)
        case False
        with Some Inr Cons.IH [OF p Cons.prems(2)] show ?thesis by simp
      next
        case True
        obtain r1 w1 where nt: "NamedTemporaryFile d (basename orig @ ''-formatted-'') w = (r1, w1)"
          by (cases "NamedTemporaryFile d (basename orig @ ''-formatted-'') w")
        show ?thesis
        proof (cases r1)
          case (Inl ex)
          with nt True Some Inr show ?thesis by simp
        next
          case (Inr t)
          from nt Inr have "fs w t = None" "fs w1 = (fs w)(t \<mapsto> Regular [] True True)"
            by (auto dest: NamedTemporaryFile_Inr)
          with Cons.prems(2) have "unresolvable (fs w1) p"
            by (simp add: unresolvable_update)
          from Cons.IH [OF p this] nt Inr True Some \<open>get_dune_file_path (fs w) a = Inr o1\<close>
          show ?thesis by simp
        qed
      qed
    qed
  qed
qed

lemma resolve_loop_append:
  "resolve_loop d ip (xs @ ys) m w =
     (case resolve_loop d ip xs m w of
        (Inl x, w') \<Rightarrow> (Inl x, w')
      | (Inr m', w') \<Rightarrow> resolve_loop d ip ys m' w')"
  by (induction xs arbitrary: m w) (auto split: sum.splits option.splits prod.splits)

lemmas ex_defs = ex_format_def ex_env_def ex_fs_def ex_args_def ex_names_def
lemmas run_defs = run_def main_def real_main_def with_body_def start_def
  get_dune_file_path_def isfile_def access_R_OK_def access_W_OK_def basename_def
  dune_file_names_def NamedTemporaryFile_def dune_get_exe_def open_w_def file_write_def
  read_text_def SaveableTempDir_exit_def print_def print_end_def program_name_def

subsection \<open>Runs that stop in the first loop\<close>

lemma SaveableTempDir_exit_frame:
  "stdout (SaveableTempDir_exit s w) = stdout w" "calls (SaveableTempDir_exit s w) = calls w"
  "writes (SaveableTempDir_exit s w) = writes w"
  by (simp_all add: SaveableTempDir_exit_def)

lemma real_main_resolve_Inl:
  assumes "\<not> version a" "resolve_loop (tmp_dir e) (in_place a) (dune_files a) [] w = (Inl x, w1)"
  shows "real_main e a w = (Inl x, SaveableTempDir_exit (save_dune_temps a) w1)"
  using assms by (simp add: real_main_def with_body_def)

lemma real_main_version_calls:
  "version a \<Longrightarrow> calls (snd (real_main e a w)) = calls w"
  by (simp add: real_main_def Let_def print_def print_end_def split: sum.splits outcome.splits)

lemma main_snd: "snd (main e a w) = snd (real_main e a w)"
  by (cases "real_main e a w") (simp add: main_def split: sum.splits)

lemma main_calls: "calls (snd (main e a w)) = calls (snd (real_main e a w))"
  by (simp add: main_snd)

lemma main_Inl: "fst (real_main e a w) = Inl x \<Longrightarrow> fst (main e a w) = (if is_Exception x then 1 else 0)"
  by (cases "real_main e a w") (simp add: main_def)

lemma main_Inr: "fst (real_main e a w) = Inr c \<Longrightarrow> fst (main e a w) = c"
  by (cases "real_main e a w") (simp add: main_def)

lemma unresolvable_run:
  assumes "p \<in> set (dune_files a)" "unresolvable f p"
  shows "calls (snd (run e a f ns)) = []"
    "\<not> version a \<Longrightarrow> fst (run e a f ns) = 1"
    "\<not> version a \<Longrightarrow> \<exists>x \<in> {TypeError, PermissionError, FileExistsError}. fst (real_main e a (start f ns)) = Inl x"
proof -
  from assms(2) have u: "unresolvable (fs (start f ns)) p" by (simp add: start_def)
  from resolve_loop_unresolvable [OF assms(1) u]
  obtain x w1 where r: "resolve_loop (tmp_dir e) (in_place a) (dune_files a) [] (start f ns) = (Inl x, w1)"
    by blast
  from resolve_loop_Inl [OF r] have x: "x \<in> {TypeError, PermissionError, FileExistsError}" .
  from resolve_loop_frame [OF r] have c: "calls w1 = []" by (simp add: start_def)
  show "calls (snd (run e a f ns)) = []"
  proof (cases "version a")
    case True
    then show ?thesis by (simp add: run_def main_calls real_main_version_calls start_def)
  next
    case False
    from real_main_resolve_Inl [OF False r] c show ?thesis
      by (simp add: run_def main_calls SaveableTempDir_exit_frame)
  qed
  {
    assume nv: "\<not> version a"
    from real_main_resolve_Inl [OF nv r]
    have rm: "fst (real_main e a (start f ns)) = Inl x" by simp
    from main_Inl [OF rm] x show "fst (run e a f ns) = 1" by (auto simp: run_def)
    from rm x show "\<exists>x \<in> {TypeError, PermissionError, FileExistsError}. fst (real_main e a (start f ns)) = Inl x"
      by blast
  }
qed

lemma resolve_prefix_then:
  assumes "\<not> version a" "dune_files a = xs @ p # rest"
    "resolve_loop (tmp_dir e) (in_place a) xs [] w = (Inr m', w')"
    "get_dune_file_path (fs w') p = r" "r \<noteq> Inr (Some p)"
  shows "fst (real_main e a w) = Inl (case r of Inl x \<Rightarrow> x | Inr y \<Rightarrow> TypeError)"
proof -
  from assms(4,5) have "\<exists>w1. resolve_loop (tmp_dir e) (in_place a) (p # rest) m' w'
     = (Inl (case r of Inl x \<Rightarrow> x | Inr y \<Rightarrow> TypeError), w1)"
    by (auto split: sum.splits option.splits dest: get_dune_file_path_Some)
  with assms(2,3) obtain w1 where "resolve_loop (tmp_dir e) (in_place a) (dune_files a) [] w
     = (Inl (case r of Inl x \<Rightarrow> x | Inr y \<Rightarrow> TypeError), w1)"
    by (auto simp: resolve_loop_append)
  from real_main_resolve_Inl [OF assms(1) this] show ?thesis by simp
qed

subsection \<open>What the resolver refuses\<close>

text \<open>
  C10. A path that does not exist or is not a regular file gets the wrong-name failure
  (the resolver returns \<open>None\<close>, which \<^verbatim>\<open>real_main\<close> raises as \<^verbatim>\<open>TypeError\<close>), whatever its base
  name; so does every path whose base name is not permitted, whatever its permissions.
  A permission error comes only from an existing regular file with a permitted name.
\<close>
theorem wrong_name_failure_before_permission_checks:
  "(\<not> isfile (fs w) p \<longrightarrow>
      get_dune_file_path (fs w) p = Inr None \<and> resolve_loop d ip (p # rest) m w = (Inl TypeError, w))
   \<and> (basename p \<notin> set dune_file_names \<longrightarrow>
      get_dune_file_path (fs w) p = Inr None \<and> resolve_loop d ip (p # rest) m w = (Inl TypeError, w))
   \<and> (get_dune_file_path (fs w) p = Inl x \<longrightarrow>
      x = PermissionError \<and> isfile (fs w) p \<and> basename p \<in> set dune_file_names)"
proof -
  have a: "get_dune_file_path (fs w) p = Inr None \<Longrightarrow> resolve_loop d ip (p # rest) m w = (Inl TypeError, w)"
    by simp
  have b: "\<not> isfile (fs w) p \<Longrightarrow> get_dune_file_path (fs w) p = Inr None"
    by (simp add: get_dune_file_path_def)
  have c: "basename p \<notin> set dune_file_names \<Longrightarrow> get_dune_file_path (fs w) p = Inr None"
    by (simp add: get_dune_file_path_def)
  show ?thesis using a b c get_dune_file_path_Inl [of "fs w" p x] by blast
qed

theorem wrong_name_failure_before_permission_checks_witness:
  "\<not> isfile (fs (start ex_fs ex_names)) ''dune-workspace''
   \<and> basename ''dune-workspace'' \<in> set dune_file_names
   \<and> resolve_loop ''/tmp/t'' True [''dune-workspace''] [] (start ex_fs ex_names)
       = (Inl TypeError, start ex_fs ex_names)
   \<and> basename ''BUILD.bazel'' \<notin> set dune_file_names
   \<and> \<not> access_R_OK ex_fs ''BUILD.bazel''
   \<and> get_dune_file_path (fs (start ex_fs ex_names)) ''BUILD.bazel'' = Inr None
   \<and> get_dune_file_path (fs (start ex_fs ex_names)) ''wo/dune'' = Inl PermissionError
   \<and> isfile (fs (start ex_fs ex_names)) ''wo/dune''"
proof -
  have h1: "\<not> isfile (fs (start ex_fs ex_names)) ''dune-workspace''"
    by (simp add: isfile_def start_def ex_fs_def)
  have h2: "basename ''BUILD.bazel'' \<notin> set dune_file_names"
    by (simp add: basename_def dune_file_names_def)
  have h3: "get_dune_file_path (fs (start ex_fs ex_names)) ''wo/dune'' = Inl PermissionError"
    by (simp add: get_dune_file_path_def isfile_def access_R_OK_def access_W_OK_def
        basename_def dune_file_names_def start_def ex_fs_def)
  have h4: "basename ''dune-workspace'' \<in> set dune_file_names"
    by (simp add: basename_def dune_file_names_def)
  have h5: "\<not> access_R_OK ex_fs ''BUILD.bazel''"
    by (simp add: access_R_OK_def ex_fs_def)
  note t1 = wrong_name_failure_before_permission_checks
      [of "start ex_fs ex_names" "''dune-workspace''" "''/tmp/t''" True "[]" "[]" PermissionError]
  note t2 = wrong_name_failure_before_permission_checks
      [of "start ex_fs ex_names" "''BUILD.bazel''" "''/tmp/t''" True "[]" "[]" PermissionError]
  note t3 = wrong_name_failure_before_permission_checks
      [of "start ex_fs ex_names" "''wo/dune''" "''/tmp/t''" True "[]" "[]" PermissionError]
  from t1 h1 have c1: "resolve_loop ''/tmp/t'' True [''dune-workspace''] [] (start ex_fs ex_names)
       = (Inl TypeError, start ex_fs ex_names)" by blast
  from t2 h2 have c2: "get_dune_file_path (fs (start ex_fs ex_names)) ''BUILD.bazel'' = Inr None"
    by blast
  from t3 h3 have c3: "isfile (fs (start ex_fs ex_names)) ''wo/dune''" by blast
  from h1 h2 h3 h4 h5 c1 c2 c3 show ?thesis by blast
qed

lemma resolve_prefix_fst:
  assumes "\<not> version a" "dune_files a = xs @ p # rest"
    "fst (resolve_loop (tmp_dir e) (in_place a) xs [] w) = Inr m'"
    "get_dune_file_path (fs (snd (resolve_loop (tmp_dir e) (in_place a) xs [] w))) p = r"
    "r \<noteq> Inr (Some p)"
  shows "fst (real_main e a w) = Inl (case r of Inl x \<Rightarrow> x | Inr y \<Rightarrow> TypeError)"
proof -
  obtain w' where "resolve_loop (tmp_dir e) (in_place a) xs [] w = (Inr m', w')"
    using assms(3) by (cases "resolve_loop (tmp_dir e) (in_place a) xs [] w") simp
  with assms resolve_prefix_then [of a xs p rest e w m' w' r] show ?thesis by simp
qed

text \<open>
  C4 (amended). In a run without \<^verbatim>\<open>--version\<close> whose list holds a path with a base name
  other than \<^verbatim>\<open>dune\<close>, \<^verbatim>\<open>dune-project\<close> and \<^verbatim>\<open>dune-workspace\<close>, no formatter subprocess is
  invoked for any file and the exit code is 1. The run fails in the first loop, with the
  wrong-name error (\<^verbatim>\<open>TypeError\<close>) when the paths before it were all resolved and staged,
  and otherwise with the error of an earlier path.
\<close>

theorem wrong_base_name_aborts_before_formatting:
  assumes "\<not> version a" "p \<in> set (dune_files a)" "basename p \<notin> set dune_file_names"
  shows "fst (run e a f ns) = 1 \<and> calls (snd (run e a f ns)) = []
    \<and> (\<exists>x \<in> {TypeError, PermissionError, FileExistsError}.
          fst (real_main e a (start f ns)) = Inl x)
    \<and> (\<forall>xs rest m'. dune_files a = xs @ p # rest
          \<longrightarrow> fst (resolve_loop (tmp_dir e) (in_place a) xs [] (start f ns)) = Inr m'
          \<longrightarrow> fst (real_main e a (start f ns)) = Inl TypeError)"
proof -
  from assms(3) have u: "unresolvable f p" by (simp add: unresolvable_def)
  have g: "get_dune_file_path g p = Inr None" for g
    using assms(3) by (simp add: get_dune_file_path_def)
  have "fst (real_main e a (start f ns)) = Inl TypeError"
    if "dune_files a = xs @ p # rest"
      "fst (resolve_loop (tmp_dir e) (in_place a) xs [] (start f ns)) = Inr m'"
    for xs rest m'
    using resolve_prefix_fst [OF assms(1) that g] by simp
  with unresolvable_run [OF assms(2) u, of e ns] assms(1) show ?thesis by blast
qed

theorem wrong_base_name_aborts_before_formatting_witness:
  "\<not> version (ex_args True [''dune'', ''BUILD.bazel''])
   \<and> basename ''BUILD.bazel'' \<notin> set dune_file_names
   \<and> fst (resolve_loop (tmp_dir ex_env) True [''dune''] [] (start ex_fs ex_names))
       = Inr [(''dune'', Some ''/tmp/t/dune-formatted-k1'')]
   \<and> fst (run ex_env (ex_args True [''dune'', ''BUILD.bazel'']) ex_fs ex_names) = 1
   \<and> calls (snd (run ex_env (ex_args True [''dune'', ''BUILD.bazel'']) ex_fs ex_names)) = []
   \<and> fst (real_main ex_env (ex_args True [''dune'', ''BUILD.bazel'']) (start ex_fs ex_names))
       = Inl TypeError"
proof -
  have h1: "\<not> version (ex_args True [''dune'', ''BUILD.bazel''])"
    by (simp add: ex_args_def)
  have h2: "''BUILD.bazel'' \<in> set (dune_files (ex_args True [''dune'', ''BUILD.bazel'']))"
    by (simp add: ex_args_def)
  have h3: "basename ''BUILD.bazel'' \<notin> set dune_file_names"
    by (simp add: basename_def dune_file_names_def)
  have h4: "dune_files (ex_args True [''dune'', ''BUILD.bazel'']) = [''dune''] @ ''BUILD.bazel'' # []"
    by (simp add: ex_args_def)
  have h5: "fst (resolve_loop (tmp_dir ex_env) True [''dune''] [] (start ex_fs ex_names))
       = Inr [(''dune'', Some ''/tmp/t/dune-formatted-k1'')]"
    by (simp add: run_defs ex_defs)
  have h6: "in_place (ex_args True [''dune'', ''BUILD.bazel''])"
    by (simp add: ex_args_def)
  note t = wrong_base_name_aborts_before_formatting [OF h1 h2 h3, of ex_env ex_fs ex_names]
  from t h4 h5 h6 have "fst (real_main ex_env (ex_args True [''dune'', ''BUILD.bazel'']) (start ex_fs ex_names))
       = Inl TypeError" by metis
  with t h1 h3 h5 show ?thesis by blast
qed

theorem wrong_base_name_counterexample:
  "basename ''BUILD.bazel'' \<notin> set dune_file_names
   \<and> fst (real_main ex_env (ex_args False [''wo/dune'', ''BUILD.bazel'']) (start ex_fs ex_names))
       = Inl PermissionError
   \<and> fst (run ex_env ((ex_args False [''BUILD.bazel''])\<lparr>version := True\<rparr>) ex_fs ex_names) = 0"
  by (simp add: run_defs ex_defs)

text \<open>
  C5 (amended). For an existing regular file with a permitted base name that lacks read
  or write permission the resolver raises \<^verbatim>\<open>PermissionError\<close>. A run whose list holds such
  a path invokes no formatter subprocess on any file; without \<^verbatim>\<open>--version\<close> it ends in
  the first loop with exit code 1, with this \<^verbatim>\<open>PermissionError\<close> when the paths before it
  were all resolved and staged.
\<close>

theorem permission_denied_aborts_before_formatting:
  assumes "isfile f p" "basename p \<in> set dune_file_names"
    "\<not> access_R_OK f p \<or> \<not> access_W_OK f p" "p \<in> set (dune_files a)"
  shows "get_dune_file_path f p = Inl PermissionError
    \<and> calls (snd (run e a f ns)) = []
    \<and> (\<not> version a \<longrightarrow> fst (run e a f ns) = 1
          \<and> (\<exists>x \<in> {TypeError, PermissionError, FileExistsError}.
                fst (real_main e a (start f ns)) = Inl x)
          \<and> (\<forall>xs rest m'. dune_files a = xs @ p # rest
                \<longrightarrow> fst (resolve_loop (tmp_dir e) (in_place a) xs [] (start f ns)) = Inr m'
                \<longrightarrow> fst (real_main e a (start f ns)) = Inl PermissionError))"
proof -
  from assms(1-3) have g: "get_dune_file_path f p = Inl PermissionError"
    by (auto simp: get_dune_file_path_def)
  from assms(1) have ex: "f p \<noteq> None" by (auto simp: isfile_def split: option.splits)
  with g have u: "unresolvable f p" by (simp add: unresolvable_def)
  have "fst (real_main e a (start f ns)) = Inl PermissionError"
    if nv: "\<not> version a" and d: "dune_files a = xs @ p # rest"
      and r: "fst (resolve_loop (tmp_dir e) (in_place a) xs [] (start f ns)) = Inr m'"
    for xs rest m'
  proof -
    obtain r1 w1 where rl: "resolve_loop (tmp_dir e) (in_place a) xs [] (start f ns) = (r1, w1)"
      by (cases "resolve_loop (tmp_dir e) (in_place a) xs [] (start f ns)")
    from resolve_loop_frame [OF rl] ex have "fs w1 p = f p" by (simp add: start_def)
    with g rl get_dune_file_path_cong [of "fs w1" p f]
    have "get_dune_file_path (fs (snd (resolve_loop (tmp_dir e) (in_place a) xs [] (start f ns)))) p
      = Inl PermissionError" by simp
    from resolve_prefix_fst [OF nv d r this] show ?thesis by simp
  qed
  with g unresolvable_run [OF assms(4) u, of e ns] show ?thesis by blast
qed

theorem permission_denied_aborts_before_formatting_witness:
  "isfile ex_fs ''ro/dune'' \<and> basename ''ro/dune'' \<in> set dune_file_names
   \<and> \<not> access_W_OK ex_fs ''ro/dune''
   \<and> get_dune_file_path ex_fs ''ro/dune'' = Inl PermissionError
   \<and> fst (resolve_loop (tmp_dir ex_env) True [''dune''] [] (start ex_fs ex_names))
       = Inr [(''dune'', Some ''/tmp/t/dune-formatted-k1'')]
   \<and> calls (snd (run ex_env (ex_args True [''dune'', ''ro/dune'']) ex_fs ex_names)) = []
   \<and> fst (run ex_env (ex_args True [''dune'', ''ro/dune'']) ex_fs ex_names) = 1
   \<and> fst (real_main ex_env (ex_args True [''dune'', ''ro/dune'']) (start ex_fs ex_names))
       = Inl PermissionError"
proof -
  have h1: "isfile ex_fs ''ro/dune''" by (simp add: isfile_def ex_fs_def)
  have h2: "basename ''ro/dune'' \<in> set dune_file_names"
    by (simp add: basename_def dune_file_names_def)
  have h3: "\<not> access_W_OK ex_fs ''ro/dune''" by (simp add: access_W_OK_def ex_fs_def)
  then have h3': "\<not> access_R_OK ex_fs ''ro/dune'' \<or> \<not> access_W_OK ex_fs ''ro/dune''" by simp
  have h4: "''ro/dune'' \<in> set (dune_files (ex_args True [''dune'', ''ro/dune'']))"
    by (simp add: ex_args_def)
  have h5: "\<not> version (ex_args True [''dune'', ''ro/dune''])" by (simp add: ex_args_def)
  have h6: "dune_files (ex_args True [''dune'', ''ro/dune'']) = [''dune''] @ ''ro/dune'' # []"
    by (simp add: ex_args_def)
  have h7: "fst (resolve_loop (tmp_dir ex_env) True [''dune''] [] (start ex_fs ex_names))
       = Inr [(''dune'', Some ''/tmp/t/dune-formatted-k1'')]"
    by (simp add: run_defs ex_defs)
  have h8: "in_place (ex_args True [''dune'', ''ro/dune''])" by (simp add: ex_args_def)
  note t = permission_denied_aborts_before_formatting [OF h1 h2 h3' h4, of ex_env ex_names]
  from t h5 h6 h7 h8
  have "fst (real_main ex_env (ex_args True [''dune'', ''ro/dune'']) (start ex_fs ex_names))
       = Inl PermissionError" by metis
  with t h1 h2 h3 h5 h7 show ?thesis by blast
qed

theorem permission_denied_counterexample:
  "isfile ex_fs ''BUILD.bazel'' \<and> \<not> access_R_OK ex_fs ''BUILD.bazel''
   \<and> \<not> access_W_OK ex_fs ''BUILD.bazel''
   \<and> get_dune_file_path ex_fs ''BUILD.bazel'' = Inr None
   \<and> fst (real_main ex_env (ex_args False [''BUILD.bazel'']) (start ex_fs ex_names)) = Inl TypeError
   \<and> fst (run ex_env ((ex_args False [''wo/dune''])\<lparr>version := True\<rparr>) ex_fs ex_names) = 0"
  by (simp add: run_defs ex_defs)

subsection \<open>One pass of the second loop\<close>

lemma format_loop_Cons:
  "format_loop e ip ((k, v) # rest) df_res w =
     (case format_step e ip k v df_res w of
        (Inl r, w') \<Rightarrow> (r, w')
      | (Inr out, w') \<Rightarrow> format_loop e ip rest (Some out) w')"
  by (simp add: format_step_def Let_def split: sum.splits outcome.splits option.splits prod.splits)

lemma format_step_frame:
  assumes "format_step e ip k v dfr w = (r, w')"
  shows "created w' = created w" "names w' = names w"
    "Some q \<noteq> v \<Longrightarrow> fs w' q = fs w q"
    "\<not> ip \<Longrightarrow> fs w' = fs w" "\<not> ip \<Longrightarrow> writes w' = writes w"
    "ip \<Longrightarrow> stdout w' = stdout w"
  using assms
  by (auto simp: format_step_def Let_def dune_get_exe_def print_end_frame file_write_frame
      split: sum.splits outcome.splits option.splits prod.splits if_splits
      dest: open_w_frame open_w_Inl)

lemma format_step_Inl:
  assumes "format_step e ip k v dfr w = (Inl r, w')"
  shows "calls w' = calls w \<and> r = Inl FileNotFoundError
     \<or> calls w' = calls w @ [(k, format_dune_file e k)] \<and> ends_with (format_dune_file e k) r
        \<and> (\<forall>out. format_dune_file e k = Completed 0 out \<longrightarrow> ip \<and> (\<exists>x. r = Inl x \<and> is_Exception x))"
  using assms
  by (auto simp: format_step_def Let_def dune_get_exe_def file_write_frame
      split: sum.splits outcome.splits option.splits prod.splits if_splits
      dest: open_w_frame open_w_Inl read_text_Inl)

lemma format_step_Inl_not_end:
  assumes "format_step e ip k v dfr w = (Inl r, w')"
  shows "r \<noteq> Inr None" "r \<noteq> Inr (Some 0)"
  using assms
  by (auto simp: format_step_def Let_def dune_get_exe_def
      split: sum.splits outcome.splits option.splits prod.splits if_splits)

lemma format_step_Inl_interrupt:
  assumes "format_step e ip k v dfr w = (Inl (Inl x), w')" "\<not> is_Exception x"
  shows "format_dune_file e k = Raised x"
  using assms
  by (auto simp: format_step_def Let_def dune_get_exe_def
      split: sum.splits outcome.splits option.splits prod.splits if_splits
      dest: open_w_Inl read_text_Inl)

lemma format_step_Inr:
  assumes "format_step e ip k v dfr w = (Inr out, w')"
  shows "format_dune_file e k = Completed 0 out"
    "calls w' = calls w @ [(k, Completed 0 out)]"
    "\<not> ip \<Longrightarrow> stdout w' = stdout w @ out"
    "ip \<Longrightarrow> \<exists>t wr. v = Some t \<and> fs w' t = Some (Regular out True wr)
        \<and> writes w' = writes w @ [(t, out)]"
proof -
  from assms obtain exe where exe: "dune_get_exe e = Inr exe"
    by (auto simp: format_step_def split: sum.splits)
  from assms exe show c: "format_dune_file e k = Completed 0 out"
    by (auto simp: format_step_def Let_def
        split: sum.splits outcome.splits option.splits prod.splits if_splits)
  let ?w1 = "w\<lparr>calls := calls w @ [(k, Completed 0 out)]\<rparr>"
  show "\<not> ip \<Longrightarrow> stdout w' = stdout w @ out"
    using assms exe c by (auto simp: format_step_def print_end_def)
  show "calls w' = calls w @ [(k, Completed 0 out)]"
    using assms exe c
    by (auto simp: format_step_def Let_def print_end_frame file_write_frame
        split: sum.splits option.splits prod.splits if_splits dest: open_w_frame)
  show "\<exists>t wr. v = Some t \<and> fs w' t = Some (Regular out True wr)
        \<and> writes w' = writes w @ [(t, out)]" if ip
  proof -
    from assms exe c that obtain t where t: "v = Some t"
      by (auto simp: format_step_def Let_def split: option.splits)
    from assms exe c that t obtain u w2 where o: "open_w t ?w1 = (Inr u, w2)"
      by (auto simp: format_step_def Let_def split: sum.splits prod.splits)
    from assms exe c that t o obtain logged where
      rd: "read_text t (file_write t out w2) = Inr logged" and w': "w' = file_write t out w2"
      by (auto simp: format_step_def Let_def split: sum.splits)
    from open_w_Inr [OF o] obtain r wr where "fs w2 t = Some (Regular [] r wr)" by blast
    from file_write_Regular [OF this, of out] open_w_frame(5) [OF o]
    have fw: "fs w' t = Some (Regular out r wr)" "writes w' = writes w @ [(t, out)]"
      by (simp_all add: w')
    from read_text_Inr [OF rd] fw w' have "r = True" by auto
    with fw t show ?thesis by blast
  qed
qed

subsection \<open>The second loop\<close>

declare format_loop.simps(2) [simp del]

lemma format_loop_frame:
  assumes "format_loop e ip items dfr w = (r, w')"
  shows "created w' = created w \<and> names w' = names w
    \<and> (\<forall>q. Some q \<notin> snd ` set items \<longrightarrow> fs w' q = fs w q)
    \<and> (\<not> ip \<longrightarrow> fs w' = fs w \<and> writes w' = writes w)
    \<and> (ip \<longrightarrow> stdout w' = stdout w)"
  using assms
proof (induction items arbitrary: dfr w)
  case Nil
  then show ?case by simp
next
  case (Cons kv items)
  obtain k v where kv: "kv = (k, v)" by (cases kv)
  obtain sr w1 where st: "format_step e ip k v dfr w = (sr, w1)"
    by (cases "format_step e ip k v dfr w")
  note fr = format_step_frame [OF st]
  show ?case
  proof (cases sr)
    case (Inl r1)
    with Cons.prems kv st have "w' = w1" by (simp add: format_loop_Cons)
    with fr show ?thesis by (auto simp: kv)
  next
    case (Inr out)
    with Cons.prems kv st have "format_loop e ip items (Some out) w1 = (r, w')"
      by (simp add: format_loop_Cons)
    from Cons.IH [OF this] fr show ?thesis by (auto simp: kv)
  qed
qed

lemma format_loop_trace:
  assumes "format_loop e ip items dfr w = (r, w')"
    "(p, oc) \<in> set (calls w')" "(p, oc) \<notin> set (calls w)"
  shows "ends_with oc r"
  using assms
proof (induction items arbitrary: dfr w)
  case Nil
  then show ?case by simp
next
  case (Cons kv items)
  obtain k v where kv: "kv = (k, v)" by (cases kv)
  obtain sr w1 where st: "format_step e ip k v dfr w = (sr, w1)"
    by (cases "format_step e ip k v dfr w")
  show ?case
  proof (cases sr)
    case (Inl r1)
    with Cons.prems(1) kv st have eq: "w' = w1" "r = r1" by (simp_all add: format_loop_Cons)
    from format_step_Inl [OF st [unfolded Inl]] Cons.prems(2,3) eq
    show ?thesis by auto
  next
    case (Inr out)
    with Cons.prems(1) kv st have rec: "format_loop e ip items (Some out) w1 = (r, w')"
      by (simp add: format_loop_Cons)
    note s = format_step_Inr(1,2) [OF st [unfolded Inr]]
    show ?thesis
    proof (cases "(p, oc) = (k, Completed 0 out)")
      case True
      then show ?thesis by simp
    next
      case False
      with Cons.prems(3) s have "(p, oc) \<notin> set (calls w1)" by simp
      from Cons.IH [OF rec Cons.prems(2) this] show ?thesis .
    qed
  qed
qed

lemma format_loop_calls:
  assumes "format_loop e ip items dfr w = (r, w')"
  shows "\<exists>n. calls w' = calls w @ map (\<lambda>kv. (fst kv, format_dune_file e (fst kv))) (take n items)"
  using assms
proof (induction items arbitrary: dfr w)
  case Nil
  then show ?case by simp
next
  case (Cons kv items)
  obtain k v where kv: "kv = (k, v)" by (cases kv)
  obtain sr w1 where st: "format_step e ip k v dfr w = (sr, w1)"
    by (cases "format_step e ip k v dfr w")
  show ?case
  proof (cases sr)
    case (Inl r1)
    with Cons.prems(1) kv st have eq: "w' = w1" by (simp add: format_loop_Cons)
    from format_step_Inl [OF st [unfolded Inl]]
    have "calls w1 = calls w @ map (\<lambda>kv. (fst kv, format_dune_file e (fst kv))) (take 0 (kv # items))
      \<or> calls w1 = calls w @ map (\<lambda>kv. (fst kv, format_dune_file e (fst kv))) (take 1 (kv # items))"
      by (auto simp: kv)
    with eq show ?thesis by blast
  next
    case (Inr out)
    with Cons.prems(1) kv st have rec: "format_loop e ip items (Some out) w1 = (r, w')"
      by (simp add: format_loop_Cons)
    note s = format_step_Inr(1,2) [OF st [unfolded Inr]]
    from Cons.IH [OF rec] obtain n where
      "calls w' = calls w1 @ map (\<lambda>kv. (fst kv, format_dune_file e (fst kv))) (take n items)"
      by blast
    with s have "calls w' = calls w @ map (\<lambda>kv. (fst kv, format_dune_file e (fst kv))) (take (Suc n) (kv # items))"
      by (simp add: kv)
    then show ?thesis by blast
  qed
qed

lemma format_loop_not_zero:
  assumes "format_loop e ip items dfr w = (r, w')"
  shows "r \<noteq> Inr (Some 0)"
  using assms
proof (induction items arbitrary: dfr w)
  case Nil
  then show ?case by auto
next
  case (Cons kv items)
  obtain k v where kv: "kv = (k, v)" by (cases kv)
  obtain sr w1 where st: "format_step e ip k v dfr w = (sr, w1)"
    by (cases "format_step e ip k v dfr w")
  show ?case
  proof (cases sr)
    case (Inl r1)
    with Cons.prems kv st have "r = r1" by (simp add: format_loop_Cons)
    with format_step_Inl_not_end [OF st [unfolded Inl]] show ?thesis by simp
  next
    case (Inr out)
    with Cons.prems kv st have "format_loop e ip items (Some out) w1 = (r, w')"
      by (simp add: format_loop_Cons)
    from Cons.IH [OF this] show ?thesis .
  qed
qed

lemma format_loop_interrupt:
  assumes "format_loop e ip items dfr w = (Inl x, w')" "\<not> is_Exception x"
  shows "\<exists>kv \<in> set items. format_dune_file e (fst kv) = Raised x"
  using assms
proof (induction items arbitrary: dfr w)
  case Nil
  then show ?case by simp
next
  case (Cons kv items)
  obtain k v where kv: "kv = (k, v)" by (cases kv)
  obtain sr w1 where st: "format_step e ip k v dfr w = (sr, w1)"
    by (cases "format_step e ip k v dfr w")
  show ?case
  proof (cases sr)
    case (Inl r1)
    with Cons.prems(1) kv st have "r1 = Inl x" by (simp add: format_loop_Cons)
    with format_step_Inl_interrupt [of e ip k v dfr w x w1] st Inl Cons.prems(2)
    show ?thesis by (simp add: kv)
  next
    case (Inr out)
    with Cons.prems(1) kv st have "format_loop e ip items (Some out) w1 = (Inl x, w')"
      by (simp add: format_loop_Cons)
    from Cons.IH [OF this Cons.prems(2)] show ?thesis by auto
  qed
qed

lemma format_loop_success:
  assumes "format_loop e ip items dfr w = (Inr None, w')"
  shows "calls w' = calls w @ map (\<lambda>kv. (fst kv, format_dune_file e (fst kv))) items
    \<and> (\<forall>kv \<in> set items. \<exists>out. format_dune_file e (fst kv) = Completed 0 out)
    \<and> (\<not> ip \<longrightarrow> stdout w' = stdout w @ concat (map (\<lambda>kv. captured (format_dune_file e (fst kv))) items))"
  using assms
proof (induction items arbitrary: dfr w)
  case Nil
  then show ?case by simp
next
  case (Cons kv items)
  obtain k v where kv: "kv = (k, v)" by (cases kv)
  obtain sr w1 where st: "format_step e ip k v dfr w = (sr, w1)"
    by (cases "format_step e ip k v dfr w")
  show ?case
  proof (cases sr)
    case (Inl r1)
    with Cons.prems(1) kv st have "r1 = Inr None" by (simp add: format_loop_Cons)
    with format_step_Inl_not_end(1) [OF st [unfolded Inl]] show ?thesis by simp
  next
    case (Inr out)
    with Cons.prems(1) kv st have rec: "format_loop e ip items (Some out) w1 = (Inr None, w')"
      by (simp add: format_loop_Cons)
    note s = format_step_Inr(1,2,3) [OF st [unfolded Inr]]
    from Cons.IH [OF rec] s show ?thesis by (simp add: kv)
  qed
qed

lemma format_loop_staged:
  assumes "format_loop e True items dfr w = (Inr None, w')" "distinct (map snd items)"
  shows "(\<forall>kv \<in> set items. \<exists>t wr. snd kv = Some t
          \<and> fs w' t = Some (Regular (captured (format_dune_file e (fst kv))) True wr))
    \<and> writes w' = writes w @ map (\<lambda>kv. (the (snd kv), captured (format_dune_file e (fst kv)))) items"
  using assms
proof (induction items arbitrary: dfr w)
  case Nil
  then show ?case by simp
next
  case (Cons kv items)
  obtain k v where kv: "kv = (k, v)" by (cases kv)
  obtain sr w1 where st: "format_step e True k v dfr w = (sr, w1)"
    by (cases "format_step e True k v dfr w")
  show ?case
  proof (cases sr)
    case (Inl r1)
    with Cons.prems(1) kv st have "r1 = Inr None" by (simp add: format_loop_Cons)
    with format_step_Inl_not_end(1) [OF st [unfolded Inl]] show ?thesis by simp
  next
    case (Inr out)
    with Cons.prems(1) kv st have rec: "format_loop e True items (Some out) w1 = (Inr None, w')"
      by (simp add: format_loop_Cons)
    from format_step_Inr(1) [OF st [unfolded Inr]] have c: "format_dune_file e k = Completed 0 out" .
    from format_step_Inr(4) [OF st [unfolded Inr]] obtain t wr where
      t: "v = Some t" "fs w1 t = Some (Regular out True wr)" "writes w1 = writes w @ [(t, out)]"
      by auto
    from Cons.prems(2) have d: "distinct (map snd items)" "Some t \<notin> snd ` set items"
      by (auto simp: kv t)
    from format_loop_frame [OF rec] d(2) have "fs w' t = fs w1 t" by blast
    with Cons.IH [OF rec d(1)] t c show ?thesis by (simp add: kv)
  qed
qed

subsection \<open>The third loop\<close>

lemma commit_loop_Cons:
  "commit_loop ((k, v) # rest) w =
     (case commit_step k v w of
        (Inl x, w') \<Rightarrow> (Inl x, w')
      | (Inr u, w') \<Rightarrow> commit_loop rest w')"
  by (simp add: commit_step_def split: sum.splits option.splits prod.splits)

declare commit_loop.simps(2) [simp del]

lemma file_text_Regular: "f p = Some (Regular c r wr) \<Longrightarrow> file_text f p = Some c"
  by (simp add: file_text_def)

lemma commit_step_frame:
  assumes "commit_step k v w = (r, w')"
  shows "calls w' = calls w" "stdout w' = stdout w" "created w' = created w"
    "names w' = names w" "q \<noteq> k \<Longrightarrow> fs w' q = fs w q"
  using assms
  by (auto simp: commit_step_def file_write_frame
      split: sum.splits option.splits prod.splits dest: open_w_frame open_w_Inl)

lemma commit_step_Inl:
  assumes "commit_step k v w = (Inl x, w')"
  shows "is_Exception x"
  using assms
  by (auto simp: commit_step_def
      split: sum.splits option.splits prod.splits dest: open_w_Inl read_text_Inl)

lemma commit_step_Inr:
  assumes "commit_step k v w = (Inr u, w')"
  shows "\<exists>t s. v = Some t \<and> file_text (fs w) t = Some s
    \<and> (t \<noteq> k \<longrightarrow> file_text (fs w') k = Some s \<and> writes w' = writes w @ [(k, s)])"
proof -
  from assms obtain t where t: "v = Some t"
    by (auto simp: commit_step_def split: option.splits)
  from assms t obtain s0 where r0: "read_text t w = Inr s0"
    by (auto simp: commit_step_def split: sum.splits)
  from assms t r0 obtain u' w1 where o: "open_w k w = (Inr u', w1)"
    by (auto simp: commit_step_def split: sum.splits prod.splits)
  from assms t r0 o obtain s where r1: "read_text t w1 = Inr s" and w': "w' = file_write k s w1"
    by (auto simp: commit_step_def split: sum.splits)
  from read_text_Inr [OF r0] have ft: "file_text (fs w) t = Some s0"
    by (auto simp: file_text_def)
  have "file_text (fs w') k = Some s0 \<and> writes w' = writes w @ [(k, s0)]" if ne: "t \<noteq> k"
  proof -
    from open_w_frame(6) [OF o ne] read_text_Inr [OF r1] read_text_Inr [OF r0]
    have "s = s0" by auto
    from open_w_Inr [OF o] obtain r wr where "fs w1 k = Some (Regular [] r wr)" by blast
    from file_write_Regular [OF this, of s] open_w_frame(5) [OF o] \<open>s = s0\<close>
    show ?thesis by (simp add: w' file_text_def)
  qed
  with t ft show ?thesis by blast
qed

lemma commit_loop_frame:
  assumes "commit_loop items w = (r, w')"
  shows "calls w' = calls w \<and> stdout w' = stdout w \<and> created w' = created w
    \<and> names w' = names w \<and> (\<forall>q. q \<notin> fst ` set items \<longrightarrow> fs w' q = fs w q)"
  using assms
proof (induction items arbitrary: w)
  case Nil
  then show ?case by simp
next
  case (Cons kv items)
  obtain k v where kv: "kv = (k, v)" by (cases kv)
  obtain sr w1 where st: "commit_step k v w = (sr, w1)" by (cases "commit_step k v w")
  note fr = commit_step_frame [OF st]
  show ?case
  proof (cases sr)
    case (Inl x)
    with Cons.prems kv st have "w' = w1" by (simp add: commit_loop_Cons)
    with fr show ?thesis by (auto simp: kv)
  next
    case (Inr u)
    with Cons.prems kv st have "commit_loop items w1 = (r, w')" by (simp add: commit_loop_Cons)
    from Cons.IH [OF this] fr show ?thesis by (auto simp: kv)
  qed
qed

lemma commit_loop_Inl:
  assumes "commit_loop items w = (Inl x, w')"
  shows "is_Exception x"
  using assms
proof (induction items arbitrary: w)
  case Nil
  then show ?case by simp
next
  case (Cons kv items)
  obtain k v where kv: "kv = (k, v)" by (cases kv)
  obtain sr w1 where st: "commit_step k v w = (sr, w1)" by (cases "commit_step k v w")
  show ?case
  proof (cases sr)
    case (Inl y)
    with Cons.prems kv st have "y = x" by (simp add: commit_loop_Cons)
    with commit_step_Inl [of k v w y w1] st Inl show ?thesis by simp
  next
    case (Inr u)
    with Cons.prems kv st have "commit_loop items w1 = (Inl x, w')" by (simp add: commit_loop_Cons)
    from Cons.IH [OF this] show ?thesis .
  qed
qed

lemma commit_loop_success:
  assumes "commit_loop items w = (Inr u, w')" "distinct (map fst items)"
    "\<forall>t. Some t \<in> snd ` set items \<longrightarrow> t \<notin> fst ` set items"
  shows "(\<forall>kv \<in> set items. \<exists>t s. snd kv = Some t \<and> file_text (fs w) t = Some s
            \<and> file_text (fs w') (fst kv) = Some s)
     \<and> writes w' = writes w @ map (\<lambda>kv. (fst kv, the (file_text (fs w) (the (snd kv))))) items"
  using assms
proof (induction items arbitrary: w)
  case Nil
  then show ?case by simp
next
  case (Cons kv items)
  obtain k v where kv: "kv = (k, v)" by (cases kv)
  obtain sr w1 where st: "commit_step k v w = (sr, w1)" by (cases "commit_step k v w")
  show ?case
  proof (cases sr)
    case (Inl x)
    with Cons.prems(1) kv st show ?thesis by (simp add: commit_loop_Cons)
  next
    case (Inr u1)
    with Cons.prems(1) kv st have rec: "commit_loop items w1 = (Inr u, w')"
      by (simp add: commit_loop_Cons)
    from commit_step_Inr [OF st [unfolded Inr]] obtain t s where
      t: "v = Some t" "file_text (fs w) t = Some s"
        "t \<noteq> k \<longrightarrow> file_text (fs w1) k = Some s \<and> writes w1 = writes w @ [(k, s)]"
      by blast
    from Cons.prems(3) have "t \<noteq> k" by (auto simp: kv t(1))
    with t have k1: "file_text (fs w1) k = Some s" "writes w1 = writes w @ [(k, s)]" by simp_all
    from Cons.prems(2) have d: "distinct (map fst items)" "k \<notin> fst ` set items"
      by (auto simp: kv)
    from Cons.prems(3) have nk: "\<forall>t. Some t \<in> snd ` set items \<longrightarrow> t \<notin> fst ` set items"
      and nk': "\<forall>t. Some t \<in> snd ` set items \<longrightarrow> t \<noteq> k"
      by (auto simp: kv)
    from commit_loop_frame [OF rec] d(2) have "fs w' k = fs w1 k" by blast
    then have k': "file_text (fs w') k = Some s" using k1 by (simp add: file_text_def)
    have same: "file_text (fs w1) t' = file_text (fs w) t'" if "Some t' \<in> snd ` set items" for t'
      using commit_step_frame(5) [OF st, of t'] nk' that by (simp add: file_text_def)
    from Cons.IH [OF rec d(1) nk]
    have ih: "\<forall>kv \<in> set items. \<exists>t s. snd kv = Some t \<and> file_text (fs w1) t = Some s
            \<and> file_text (fs w') (fst kv) = Some s"
      and wr: "writes w' = writes w1 @ map (\<lambda>kv. (fst kv, the (file_text (fs w1) (the (snd kv))))) items"
      by blast+
    have a: "\<forall>kv \<in> set items. \<exists>t s. snd kv = Some t \<and> file_text (fs w) t = Some s
            \<and> file_text (fs w') (fst kv) = Some s"
    proof
      fix kv' assume m: "kv' \<in> set items"
      with ih obtain t' s' where x: "snd kv' = Some t'" "file_text (fs w1) t' = Some s'"
        "file_text (fs w') (fst kv') = Some s'" by blast
      from m x(1) have "Some t' \<in> snd ` set items" by (metis imageI)
      from same [OF this] x(2) have "file_text (fs w) t' = Some s'" by simp
      with x(1,3) show "\<exists>t s. snd kv' = Some t \<and> file_text (fs w) t = Some s
            \<and> file_text (fs w') (fst kv') = Some s" by blast
    qed
    have b: "map (\<lambda>kv. (fst kv, the (file_text (fs w1) (the (snd kv))))) items
      = map (\<lambda>kv. (fst kv, the (file_text (fs w) (the (snd kv))))) items"
    proof (rule map_cong [OF refl])
      fix kv' assume m: "kv' \<in> set items"
      with ih obtain t' where x: "snd kv' = Some t'" by blast
      from m x have "Some t' \<in> snd ` set items" by (metis imageI)
      from same [OF this] x
      show "(fst kv', the (file_text (fs w1) (the (snd kv')))) = (fst kv', the (file_text (fs w) (the (snd kv'))))"
        by simp
    qed
    from a b wr k1 k' t show ?thesis by (simp add: kv)
  qed
qed

subsection \<open>Runs that reach the second loop\<close>

lemma real_main_format_stops:
  assumes "\<not> version a"
    "resolve_loop (tmp_dir e) (in_place a) (dune_files a) [] w = (Inr m, w1)"
    "format_loop e (in_place a) m None w1 = (r, w2)" "r \<noteq> Inr None"
  shows "real_main e a w =
    (case r of Inl x \<Rightarrow> Inl x | Inr c \<Rightarrow> Inr (the c), SaveableTempDir_exit (save_dune_temps a) w2)"
  using assms by (auto simp: real_main_def with_body_def split: sum.splits option.splits)

lemma real_main_stream_done:
  assumes "\<not> version a" "\<not> in_place a"
    "resolve_loop (tmp_dir e) (in_place a) (dune_files a) [] w = (Inr m, w1)"
    "format_loop e (in_place a) m None w1 = (Inr None, w2)"
  shows "real_main e a w = (Inr 0, SaveableTempDir_exit (save_dune_temps a) w2)"
  using assms by (auto simp: real_main_def with_body_def)

lemma real_main_commit:
  assumes "\<not> version a" "in_place a"
    "resolve_loop (tmp_dir e) (in_place a) (dune_files a) [] w = (Inr m, w1)"
    "format_loop e (in_place a) m None w1 = (Inr None, w2)"
    "commit_loop m w2 = (r, w3)"
  shows "real_main e a w =
    (case r of Inl x \<Rightarrow> Inl x | Inr u \<Rightarrow> Inr 0, SaveableTempDir_exit (save_dune_temps a) w3)"
  using assms by (auto simp: real_main_def with_body_def split: sum.splits)

lemma real_main_calls:
  assumes "\<not> version a"
    "resolve_loop (tmp_dir e) (in_place a) (dune_files a) [] w = (Inr m, w1)"
    "format_loop e (in_place a) m None w1 = (r, w2)"
  shows "calls (snd (real_main e a w)) = calls w2"
proof (cases "r = Inr None")
  case False
  from real_main_format_stops [OF assms False] show ?thesis
    by (simp add: SaveableTempDir_exit_frame)
next
  case True
  show ?thesis
  proof (cases "in_place a")
    case False
    from real_main_stream_done [OF assms(1) False assms(2) assms(3) [unfolded True]]
    show ?thesis by (simp add: SaveableTempDir_exit_frame)
  next
    case ip: True
    obtain r3 w3 where cl: "commit_loop m w2 = (r3, w3)" by (cases "commit_loop m w2")
    from real_main_commit [OF assms(1) ip assms(2) assms(3) [unfolded True] cl]
      commit_loop_frame [OF cl]
    show ?thesis by (simp add: SaveableTempDir_exit_frame)
  qed
qed

lemma ends_with_end: "ends_with oc (Inr None) \<Longrightarrow> \<exists>out. oc = Completed 0 out"
  by (cases oc) (auto split: if_splits)

text \<open>A call on record that did not succeed decides how \<^verbatim>\<open>real_main\<close> ends.\<close>

lemma run_trace:
  assumes "(p, oc) \<in> set (calls (snd (run e a f ns)))" "\<forall>out. oc \<noteq> Completed 0 out"
  shows "\<exists>r. ends_with oc r \<and> r \<noteq> Inr None
    \<and> real_main e a (start f ns) =
        (case r of Inl x \<Rightarrow> Inl x | Inr c \<Rightarrow> Inr (the c),
         snd (real_main e a (start f ns)))
    \<and> (\<exists>m w1 w2. resolve_loop (tmp_dir e) (in_place a) (dune_files a) [] (start f ns) = (Inr m, w1)
         \<and> format_loop e (in_place a) m None w1 = (r, w2)
         \<and> snd (real_main e a (start f ns)) = SaveableTempDir_exit (save_dune_temps a) w2)"
proof -
  have nv: "\<not> version a"
  proof
    assume "version a"
    from real_main_version_calls [OF this, of e "start f ns"] assms show False
      by (simp add: run_def main_calls start_def)
  qed
  obtain r1 w1 where rl: "resolve_loop (tmp_dir e) (in_place a) (dune_files a) [] (start f ns) = (r1, w1)"
    by (cases "resolve_loop (tmp_dir e) (in_place a) (dune_files a) [] (start f ns)")
  from resolve_loop_frame [OF rl] have c1: "calls w1 = []" by (simp add: start_def)
  show ?thesis
  proof (cases r1)
    case (Inl x)
    from real_main_resolve_Inl [OF nv rl [unfolded Inl]] c1 assms show ?thesis
      by (simp add: run_def main_calls SaveableTempDir_exit_frame)
  next
    case (Inr m)
    obtain r2 w2 where fl: "format_loop e (in_place a) m None w1 = (r2, w2)"
      by (cases "format_loop e (in_place a) m None w1")
    from real_main_calls [OF nv rl [unfolded Inr] fl] assms(1)
    have "(p, oc) \<in> set (calls w2)" by (simp add: run_def main_calls)
    from format_loop_trace [OF fl this] c1 have ew: "ends_with oc r2" by simp
    with assms(2) ends_with_end have ne: "r2 \<noteq> Inr None" by blast
    from real_main_format_stops [OF nv rl [unfolded Inr] fl ne] ew ne rl Inr fl
    show ?thesis by auto
  qed
qed

subsection \<open>Exit codes and the version flag\<close>

lemmas loop_simps = format_loop.simps commit_loop.simps

text \<open>
  C6. When a call of the formatter raises an exception of class \<^verbatim>\<open>Exception\<close> (anything
  but the non-zero exit, which \<^verbatim>\<open>check=True\<close> reports, and the user's interrupt), the exit
  code is 1: \<^verbatim>\<open>real_main\<close> returns 1, or, when no earlier call has bound \<^verbatim>\<open>df_res\<close>, its
  handler raises \<^verbatim>\<open>UnboundLocalError\<close>, which \<^verbatim>\<open>main\<close> turns into 1.
\<close>

theorem unexpected_invocation_failure_exit_code_1:
  assumes "(p, Raised x) \<in> set (calls (snd (run e a f ns)))" "is_Exception x"
  shows "fst (run e a f ns) = 1
    \<and> (fst (real_main e a (start f ns)) = Inr 1
        \<or> fst (real_main e a (start f ns)) = Inl UnboundLocalError)"
proof -
  from run_trace [OF assms(1)] obtain r where
    r: "ends_with (Raised x) r" "fst (real_main e a (start f ns)) = (case r of Inl x \<Rightarrow> Inl x | Inr c \<Rightarrow> Inr (the c))"
    by (metis fst_conv outcome.distinct(1))
  from r(1) assms(2) have "r = Inl UnboundLocalError \<or> r = Inr (Some 1)" by simp
  with r(2) have d: "fst (real_main e a (start f ns)) = Inr 1
        \<or> fst (real_main e a (start f ns)) = Inl UnboundLocalError" by auto
  with main_Inl [of e a "start f ns" UnboundLocalError] main_Inr [of e a "start f ns" 1]
  show ?thesis by (auto simp: run_def)
qed

theorem unexpected_invocation_failure_exit_code_1_witness:
  "(''lib/dune'', Raised OSError)
      \<in> set (calls (snd (run ex_env (ex_args False [''dune'', ''lib/dune'']) ex_fs ex_names)))
   \<and> is_Exception OSError
   \<and> fst (run ex_env (ex_args False [''dune'', ''lib/dune'']) ex_fs ex_names) = 1
   \<and> fst (real_main ex_env (ex_args False [''dune'', ''lib/dune'']) (start ex_fs ex_names)) = Inr 1"
proof -
  have h1: "(''lib/dune'', Raised OSError)
      \<in> set (calls (snd (run ex_env (ex_args False [''dune'', ''lib/dune'']) ex_fs ex_names)))"
    by (simp add: run_defs ex_defs loop_simps)
  have h2: "is_Exception OSError" by simp
  have h3: "fst (real_main ex_env (ex_args False [''dune'', ''lib/dune'']) (start ex_fs ex_names)) = Inr 1"
    by (simp add: run_defs ex_defs loop_simps)
  from unexpected_invocation_failure_exit_code_1 [OF h1 h2] h1 h2 h3 show ?thesis by blast
qed

text \<open>
  C7. A \<^verbatim>\<open>KeyboardInterrupt\<close> that leaves \<^verbatim>\<open>real_main\<close> becomes exit code 0 in \<^verbatim>\<open>main\<close>; and
  an interrupt raised while a formatter call is waiting does leave \<^verbatim>\<open>real_main\<close>, since
  the handler for \<^verbatim>\<open>Exception\<close> in the loop does not catch it.
\<close>

theorem keyboard_interrupt_exit_code_0:
  "(fst (real_main e a w) = Inl KeyboardInterrupt \<longrightarrow> fst (main e a w) = 0)
   \<and> ((p, Raised KeyboardInterrupt) \<in> set (calls (snd (run e a f ns)))
        \<longrightarrow> fst (real_main e a (start f ns)) = Inl KeyboardInterrupt \<and> fst (run e a f ns) = 0)"
proof -
  have a: "fst (main e a w) = 0" if "fst (real_main e a w) = Inl KeyboardInterrupt" for w
    using main_Inl [OF that] by simp
  have b: "fst (real_main e a (start f ns)) = Inl KeyboardInterrupt"
    if c: "(p, Raised KeyboardInterrupt) \<in> set (calls (snd (run e a f ns)))"
  proof -
    from run_trace [OF c] obtain r where
      r: "ends_with (Raised KeyboardInterrupt) r"
        "fst (real_main e a (start f ns)) = (case r of Inl x \<Rightarrow> Inl x | Inr c \<Rightarrow> Inr (the c))"
      by (metis fst_conv outcome.distinct(1))
    from r(1) have "r = Inl KeyboardInterrupt" by simp
    with r(2) show ?thesis by simp
  qed
  from a b show ?thesis by (auto simp: run_def)
qed

theorem keyboard_interrupt_exit_code_0_witness:
  "(''bin/dune'', Raised KeyboardInterrupt)
      \<in> set (calls (snd (run ex_env (ex_args True [''dune'', ''bin/dune'']) ex_fs ex_names)))
   \<and> fst (real_main ex_env (ex_args True [''dune'', ''bin/dune'']) (start ex_fs ex_names))
       = Inl KeyboardInterrupt
   \<and> fst (main ex_env (ex_args True [''dune'', ''bin/dune'']) (start ex_fs ex_names)) = 0
   \<and> fst (run ex_env (ex_args True [''dune'', ''bin/dune'']) ex_fs ex_names) = 0"
proof -
  have h1: "(''bin/dune'', Raised KeyboardInterrupt)
      \<in> set (calls (snd (run ex_env (ex_args True [''dune'', ''bin/dune'']) ex_fs ex_names)))"
    by (simp add: run_defs ex_defs loop_simps)
  note t = keyboard_interrupt_exit_code_0
    [of ex_env "ex_args True [''dune'', ''bin/dune'']" "start ex_fs ex_names" "''bin/dune''"
      ex_fs ex_names]
  from t h1 show ?thesis by blast
qed

text \<open>
  C8 (amended). With \<^verbatim>\<open>--version\<close> the file system is left as it was, nothing is written,
  no file is given to the formatter, and the exit code and the output are the same for
  every file system and every list of paths. The program prints its own version; when
  \<^verbatim>\<open>dune\<close> is found on the search path and its \<^verbatim>\<open>--version\<close> call completes, it also prints
  what that call reported and exits with 0.
\<close>

theorem version_flag_touches_no_input_file:
  assumes "version a"
  shows "fs (snd (run e a f ns)) = f \<and> calls (snd (run e a f ns)) = []
    \<and> writes (snd (run e a f ns)) = []
    \<and> fst (run e a f ns) = fst (run e (a\<lparr>dune_files := xs\<rparr>) f' ns')
    \<and> stdout (snd (run e a f ns)) = stdout (snd (run e (a\<lparr>dune_files := xs\<rparr>) f' ns'))
    \<and> (\<exists>rest. stdout (snd (run e a f ns))
          = program_name @ '' version: '' @ tool_version e @ [CHR 0x0A] @ rest)
    \<and> (\<forall>exe returncode out. which_dune e = Some exe
          \<longrightarrow> format_dune_file_version e = Completed returncode out
          \<longrightarrow> fst (run e a f ns) = 0
            \<and> stdout (snd (run e a f ns))
              = program_name @ '' version: '' @ tool_version e @ [CHR 0x0A]
                @ ''dune format-dune-file version: '' @ out)"
  using assms
  by (cases "which_dune e"; cases "format_dune_file_version e")
     (simp_all add: run_def main_def real_main_def start_def print_def print_end_def
       dune_get_exe_def)

theorem version_flag_touches_no_input_file_witness:
  "version ((ex_args True [''dune''])\<lparr>version := True\<rparr>)
   \<and> which_dune ex_env = Some ''/usr/bin/dune''
   \<and> format_dune_file_version ex_env = Completed 0 ''3.16.0''
   \<and> fs (snd (run ex_env ((ex_args True [''dune''])\<lparr>version := True\<rparr>) ex_fs ex_names)) = ex_fs
   \<and> calls (snd (run ex_env ((ex_args True [''dune''])\<lparr>version := True\<rparr>) ex_fs ex_names)) = []
   \<and> fst (run ex_env ((ex_args True [''dune''])\<lparr>version := True\<rparr>) ex_fs ex_names) = 0
   \<and> stdout (snd (run ex_env ((ex_args True [''dune''])\<lparr>version := True\<rparr>) ex_fs ex_names))
       = program_name @ '' version: '' @ tool_version ex_env @ [CHR 0x0A]
         @ ''dune format-dune-file version: '' @ ''3.16.0''"
proof -
  have h1: "version ((ex_args True [''dune''])\<lparr>version := True\<rparr>)" by simp
  have h2: "which_dune ex_env = Some ''/usr/bin/dune''" by (simp add: ex_env_def)
  have h3: "format_dune_file_version ex_env = Completed 0 ''3.16.0''" by (simp add: ex_env_def)
  note t = version_flag_touches_no_input_file [OF h1, of ex_env ex_fs ex_names "[]" ex_fs ex_names]
  from t h1 h2 h3 show ?thesis by blast
qed

theorem version_flag_counterexample:
  "version ((ex_args False [''dune''])\<lparr>version := True\<rparr>)
   \<and> fst (run (ex_env\<lparr>which_dune := None\<rparr>) ((ex_args False [''dune''])\<lparr>version := True\<rparr>)
          ex_fs ex_names) = 1
   \<and> stdout (snd (run (ex_env\<lparr>which_dune := None\<rparr>) ((ex_args False [''dune''])\<lparr>version := True\<rparr>)
          ex_fs ex_names)) = ''pre-commit-dune-format-dune-file version: 0.1.0'' @ [CHR 0x0A]"
  by (simp add: run_defs ex_defs)

subsection \<open>Insertion order and dictionaries\<close>

lemma add_key_distinct: "distinct ks \<Longrightarrow> distinct (add_key ks k)"
  by (simp add: add_key_def)

lemma set_add_key: "set (add_key ks k) = insert k (set ks)"
  by (auto simp: add_key_def)

lemma foldl_add_key_distinct: "distinct ks \<Longrightarrow> distinct (foldl add_key ks xs)"
  by (induction xs arbitrary: ks) (simp_all add: add_key_distinct)

lemma set_foldl_add_key: "set (foldl add_key ks xs) = set ks \<union> set xs"
  by (induction xs arbitrary: ks) (auto simp: set_add_key)

lemma foldl_add_key_fresh:
  "distinct xs \<Longrightarrow> set xs \<inter> set ks = {} \<Longrightarrow> foldl add_key ks xs = ks @ xs"
  by (induction xs arbitrary: ks) (auto simp: add_key_def)

lemma insertion_order_distinct: "distinct (insertion_order xs)"
  by (simp add: insertion_order_def foldl_add_key_distinct)

lemma set_insertion_order: "set (insertion_order xs) = set xs"
  by (simp add: insertion_order_def set_foldl_add_key)

lemma insertion_order_id: "distinct xs \<Longrightarrow> insertion_order xs = xs"
  using foldl_add_key_fresh [of xs "[]"] by (simp add: insertion_order_def)

lemma count_list_distinct: "distinct xs \<Longrightarrow> x \<in> set xs \<Longrightarrow> count_list xs x = 1"
  by (induction xs) auto

lemma dict_set_fst: "map fst (dict_set m k v) = add_key (map fst m) k"
proof (induction m)
  case Nil
  then show ?case by (simp add: add_key_def)
next
  case (Cons a m)
  obtain k' v' where a: "a = (k', v')" by (cases a)
  show ?case
  proof (cases "k' = k")
    case True
    then show ?thesis by (simp add: a add_key_def)
  next
    case False
    with Cons.IH show ?thesis by (simp add: a add_key_def)
  qed
qed

lemma dict_set_snd: "snd ` set (dict_set m k v) \<subseteq> insert v (snd ` set m)"
proof (induction m)
  case Nil
  then show ?case by simp
next
  case (Cons a m)
  obtain k' v' where a: "a = (k', v')" by (cases a)
  from Cons.IH show ?case by (cases "k' = k") (auto simp: a)
qed

lemma dict_set_distinct_snd:
  "distinct (map snd m) \<Longrightarrow> v \<notin> snd ` set m \<Longrightarrow> distinct (map snd (dict_set m k v))"
proof (induction m)
  case Nil
  then show ?case by simp
next
  case (Cons a m)
  obtain k' v' where a: "a = (k', v')" by (cases a)
  from Cons.prems have d: "distinct (map snd m)" "v' \<notin> snd ` set m" "v \<notin> snd ` set m" "v \<noteq> v'"
    by (auto simp: a)
  show ?case
  proof (cases "k' = k")
    case True
    with d show ?thesis by (simp add: a)
  next
    case False
    from dict_set_snd [of m k v] d(2,4) have "v' \<notin> snd ` set (dict_set m k v)" by auto
    with Cons.IH [OF d(1,3)] False show ?thesis by (simp add: a)
  qed
qed

subsection \<open>What the first loop builds\<close>

lemma resolve_loop_keys:
  "resolve_loop d ip xs m w = (Inr m', w') \<Longrightarrow> map fst m' = foldl add_key (map fst m) xs"
proof (induction xs arbitrary: m w)
  case Nil
  then show ?case by simp
next
  case (Cons x xs)
  from Cons.prems obtain orig where g: "get_dune_file_path (fs w) x = Inr (Some orig)"
    by (auto split: sum.splits option.splits)
  from get_dune_file_path_Some(1) [OF g] have o: "orig = x" .
  show ?case
  proof (cases ip)
    case False
    with Cons.prems g o have "resolve_loop d ip xs (dict_set m x None) w = (Inr m', w')" by simp
    from Cons.IH [OF this] show ?thesis by (simp add: dict_set_fst)
  next
    case True
    with Cons.prems g o obtain t w1 where
      "resolve_loop d ip xs (dict_set m x (Some t)) w1 = (Inr m', w')"
      by (auto split: sum.splits prod.splits)
    from Cons.IH [OF this] show ?thesis by (simp add: dict_set_fst)
  qed
qed

lemma staged_step:
  assumes "staged f m w" "NamedTemporaryFile d pre w = (Inr t, w1)"
  shows "staged f (dict_set m k (Some t)) w1"
proof -
  note n = NamedTemporaryFile_Inr [OF assms(2)]
  from assms(1) have
    a: "\<forall>q. f q \<noteq> None \<longrightarrow> fs w q = f q" and
    b: "\<forall>t \<in> set (created w). f t = None \<and> fs w t \<noteq> None" and
    c: "\<forall>v \<in> snd ` set m. \<exists>t. v = Some t \<and> t \<in> set (created w)" and
    dd: "distinct (map snd m)" "distinct (map fst m)"
    by (simp_all add: staged_def)
  from a n(1) have ft: "f t = None" by (metis)
  have a': "\<forall>q. f q \<noteq> None \<longrightarrow> fs w1 q = f q"
    using a ft by (auto simp: n(2))
  have b': "\<forall>t' \<in> set (created w1). f t' = None \<and> fs w1 t' \<noteq> None"
    using b ft by (auto simp: n(2,3))
  from b c n(1) have nt: "Some t \<notin> snd ` set m" by force
  have c': "\<forall>v \<in> snd ` set (dict_set m k (Some t)). \<exists>t'. v = Some t' \<and> t' \<in> set (created w1)"
  proof
    fix v assume "v \<in> snd ` set (dict_set m k (Some t))"
    with dict_set_snd [of m k "Some t"] have "v = Some t \<or> v \<in> snd ` set m" by blast
    with c show "\<exists>t'. v = Some t' \<and> t' \<in> set (created w1)" by (auto simp: n(3))
  qed
  from dict_set_distinct_snd [OF dd(1) nt] add_key_distinct [OF dd(2)] a' b' c'
  show ?thesis by (simp add: staged_def dict_set_fst)
qed

lemma staged_Inl:
  assumes "staged f m w" "NamedTemporaryFile d pre w = (Inl x, w1)"
  shows "staged f m w1"
  using assms NamedTemporaryFile_Inl(2,3) [OF assms(2)] by (simp add: staged_def)

lemma resolve_loop_staged:
  assumes "resolve_loop d True xs m w = (r, w')" "staged f m w"
  shows "staged f (case r of Inl x \<Rightarrow> [] | Inr m' \<Rightarrow> m') w'"
  using assms
proof (induction xs arbitrary: m w)
  case Nil
  then show ?case by auto
next
  case (Cons x xs)
  have weak: "staged f [] w0" if "staged f m0 w0" for m0 w0
    using that by (simp add: staged_def)
  show ?case
  proof (cases "get_dune_file_path (fs w) x")
    case (Inl ex)
    with Cons.prems weak show ?thesis by auto
  next
    case (Inr o1)
    show ?thesis
    proof (cases o1)
      case None
      with Inr Cons.prems weak show ?thesis by auto
    next
      case (Some orig)
      obtain r1 w1 where nt: "NamedTemporaryFile d (basename orig @ ''-formatted-'') w = (r1, w1)"
        by (cases "NamedTemporaryFile d (basename orig @ ''-formatted-'') w")
      show ?thesis
      proof (cases r1)
        case (Inl ex)
        with nt Some Inr Cons.prems(1) have "r = Inl ex" "w' = w1" by simp_all
        with staged_Inl [OF Cons.prems(2) nt [unfolded Inl]] weak show ?thesis by auto
      next
        case t: (Inr t)
        with nt Some Inr Cons.prems(1)
        have rec: "resolve_loop d True xs (dict_set m orig (Some t)) w1 = (r, w')" by simp
        from Cons.IH [OF rec staged_step [OF Cons.prems(2) nt [unfolded t]]] show ?thesis .
      qed
    qed
  qed
qed

lemma staged_start: "staged f [] (start f ns)"
  by (simp add: staged_def start_def)

subsection \<open>Stream mode\<close>

lemma SaveableTempDir_exit_nothing_created:
  "created w = [] \<Longrightarrow> fs (SaveableTempDir_exit s w) = fs w"
  by (simp add: SaveableTempDir_exit_def restrict_map_def)

lemma SaveableTempDir_exit_other:
  "q \<notin> set (created w) \<Longrightarrow> fs (SaveableTempDir_exit s w) q = fs w q"
  by (simp add: SaveableTempDir_exit_def)

text \<open>
  C3. Without \<^verbatim>\<open>--version\<close> and without \<^verbatim>\<open>-i\<close> the file system after the run is the file
  system before it, however the run ends, and nothing is written to any file. When
  \<^verbatim>\<open>real_main\<close> returns 0, standard output is the concatenation of what the formatter
  printed for the input paths, each path once, in the order of its first occurrence
  (which is the list itself when no path is repeated).
\<close>

theorem stream_mode_mutates_nothing:
  assumes "\<not> version a" "\<not> in_place a"
  shows "fs (snd (run e a f ns)) = f \<and> writes (snd (run e a f ns)) = []
    \<and> (fst (real_main e a (start f ns)) = Inr 0 \<longrightarrow>
         stdout (snd (run e a f ns))
           = concat (map (\<lambda>p. captured (format_dune_file e p)) (insertion_order (dune_files a))))
    \<and> (distinct (dune_files a) \<longrightarrow> insertion_order (dune_files a) = dune_files a)"
proof -
  let ?w = "start f ns"
  obtain r1 w1 where rl: "resolve_loop (tmp_dir e) (in_place a) (dune_files a) [] ?w = (r1, w1)"
    by (cases "resolve_loop (tmp_dir e) (in_place a) (dune_files a) [] ?w")
  from rl assms(2) resolve_loop_stream have w1: "w1 = ?w" by simp
  have st: "fs ?w = f" "writes ?w = []" "created ?w = []" "stdout ?w = []"
    by (simp_all add: start_def)
  have main: "fs (snd (real_main e a ?w)) = f \<and> writes (snd (real_main e a ?w)) = []
    \<and> (fst (real_main e a ?w) = Inr 0 \<longrightarrow>
         stdout (snd (real_main e a ?w))
           = concat (map (\<lambda>p. captured (format_dune_file e p)) (insertion_order (dune_files a))))"
  proof (cases r1)
    case (Inl x)
    from real_main_resolve_Inl [OF assms(1) rl [unfolded Inl]] w1 st show ?thesis
      by (simp add: SaveableTempDir_exit_nothing_created SaveableTempDir_exit_frame)
  next
    case (Inr m)
    obtain r2 w2 where fl: "format_loop e (in_place a) m None w1 = (r2, w2)"
      by (cases "format_loop e (in_place a) m None w1")
    from format_loop_frame [OF fl] assms(2) w1 st
    have fr: "fs w2 = f" "writes w2 = []" "created w2 = []" by simp_all
    from resolve_loop_keys [OF rl [unfolded Inr]]
    have keys: "map fst m = insertion_order (dune_files a)" by (simp add: insertion_order_def)
    show ?thesis
    proof (cases "r2 = Inr None")
      case False
      from real_main_format_stops [OF assms(1) rl [unfolded Inr] fl False] fr
        format_loop_not_zero [OF fl] False
      show ?thesis
        by (cases r2)
          (auto simp: SaveableTempDir_exit_nothing_created SaveableTempDir_exit_frame)
    next
      case True
      from format_loop_success [OF fl [unfolded True]] assms(2) w1 st
      have "stdout w2 = concat (map (\<lambda>kv. captured (format_dune_file e (fst kv))) m)" by simp
      also have "\<dots> = concat (map (\<lambda>p. captured (format_dune_file e p)) (map fst m))"
        by (simp add: comp_def)
      finally have "stdout w2
        = concat (map (\<lambda>p. captured (format_dune_file e p)) (insertion_order (dune_files a)))"
        by (simp only: keys)
      with real_main_stream_done [OF assms(1,2) rl [unfolded Inr] fl [unfolded True]] fr
      show ?thesis
        by (simp add: SaveableTempDir_exit_nothing_created SaveableTempDir_exit_frame)
    qed
  qed
  then show ?thesis by (simp add: run_def main_snd insertion_order_id)
qed

theorem stream_mode_mutates_nothing_witness:
  "\<not> version (ex_args False [''dune'', ''src/dune''])
   \<and> \<not> in_place (ex_args False [''dune'', ''src/dune''])
   \<and> fst (real_main ex_env (ex_args False [''dune'', ''src/dune'']) (start ex_fs ex_names)) = Inr 0
   \<and> distinct (dune_files (ex_args False [''dune'', ''src/dune'']))
   \<and> fs (snd (run ex_env (ex_args False [''dune'', ''src/dune'']) ex_fs ex_names)) = ex_fs
   \<and> stdout (snd (run ex_env (ex_args False [''dune'', ''src/dune'']) ex_fs ex_names))
       = ''(library (name foo))(executable (name main))''"
proof -
  have h1: "\<not> version (ex_args False [''dune'', ''src/dune''])" by (simp add: ex_args_def)
  have h2: "\<not> in_place (ex_args False [''dune'', ''src/dune''])" by (simp add: ex_args_def)
  have h3: "fst (real_main ex_env (ex_args False [''dune'', ''src/dune'']) (start ex_fs ex_names)) = Inr 0"
    by (simp add: run_defs ex_defs loop_simps)
  have h4: "distinct (dune_files (ex_args False [''dune'', ''src/dune'']))"
    by (simp add: ex_args_def)
  have h5: "concat (map (\<lambda>p. captured (format_dune_file ex_env p))
      (dune_files (ex_args False [''dune'', ''src/dune''])))
    = ''(library (name foo))(executable (name main))''"
    by (simp add: ex_defs)
  note t = stream_mode_mutates_nothing [OF h1 h2, of ex_env ex_fs ex_names]
  from t h3 h4 have "stdout (snd (run ex_env (ex_args False [''dune'', ''src/dune'']) ex_fs ex_names))
    = concat (map (\<lambda>p. captured (format_dune_file ex_env p))
      (dune_files (ex_args False [''dune'', ''src/dune''])))" by metis
  with h5 have "stdout (snd (run ex_env (ex_args False [''dune'', ''src/dune'']) ex_fs ex_names))
       = ''(library (name foo))(executable (name main))''" by simp
  with t h1 h2 h3 h4 show ?thesis by blast
qed

subsection \<open>In-place mode\<close>

lemma format_step_writes:
  assumes "format_step e ip k v dfr w = (r, w')" "(q, s) \<in> set (writes w')"
  shows "(q, s) \<in> set (writes w) \<or> v = Some q"
  using assms
  by (auto simp: format_step_def Let_def dune_get_exe_def print_end_frame file_write_def
      split: sum.splits outcome.splits option.splits prod.splits if_splits node.splits
      dest: open_w_frame open_w_Inl)

lemma format_loop_writes:
  assumes "format_loop e ip items dfr w = (r, w')" "(q, s) \<in> set (writes w')"
  shows "(q, s) \<in> set (writes w) \<or> Some q \<in> snd ` set items"
  using assms
proof (induction items arbitrary: dfr w)
  case Nil
  then show ?case by simp
next
  case (Cons kv items)
  obtain k v where kv: "kv = (k, v)" by (cases kv)
  obtain sr w1 where st: "format_step e ip k v dfr w = (sr, w1)"
    by (cases "format_step e ip k v dfr w")
  show ?case
  proof (cases sr)
    case (Inl r1)
    with Cons.prems(1) kv st have "w' = w1" by (simp add: format_loop_Cons)
    with format_step_writes [OF st] Cons.prems(2) show ?thesis by (auto simp: kv)
  next
    case (Inr out)
    with Cons.prems(1) kv st have "format_loop e ip items (Some out) w1 = (r, w')"
      by (simp add: format_loop_Cons)
    from Cons.IH [OF this Cons.prems(2)] format_step_writes [OF st, of q s]
    show ?thesis by (auto simp: kv)
  qed
qed

lemma valid_dune_file_exists: "valid_dune_file f q \<Longrightarrow> f q \<noteq> None"
  by (auto simp: valid_dune_file_def dest: get_dune_file_path_Some)

lemma staged_not_temp:
  assumes "staged f m w" "f q \<noteq> None"
  shows "Some q \<notin> snd ` set m" "q \<notin> set (created w)" "fs w q = f q"
  using assms by (auto simp: staged_def)

text \<open>
  C1. In place, when the record of the run holds a formatter call that exited with a
  code other than 0, the program returns that code; every file that existed before the
  run, and so every valid input file, is what it was, and no text was written to it.
\<close>

theorem failed_format_leaves_originals_untouched:
  assumes "in_place a" "\<forall>q \<in> set (dune_files a). valid_dune_file f q"
    "(p, Completed c s) \<in> set (calls (snd (run e a f ns)))" "c \<noteq> 0"
  shows "fst (run e a f ns) = c
    \<and> (\<forall>q \<in> set (dune_files a). fs (snd (run e a f ns)) q = f q
          \<and> q \<notin> fst ` set (writes (snd (run e a f ns))))
    \<and> (\<forall>q. f q \<noteq> None \<longrightarrow> fs (snd (run e a f ns)) q = f q)"
proof -
  from assms(4) have ns: "\<forall>out. Completed c s \<noteq> Completed 0 out" by simp
  from run_trace [OF assms(3) ns] obtain r m w1 w2 where
    ew: "ends_with (Completed c s) r" and
    rm: "real_main e a (start f ns) =
        (case r of Inl x \<Rightarrow> Inl x | Inr c \<Rightarrow> Inr (the c), snd (real_main e a (start f ns)))" and
    rl: "resolve_loop (tmp_dir e) (in_place a) (dune_files a) [] (start f ns) = (Inr m, w1)" and
    fl: "format_loop e (in_place a) m None w1 = (r, w2)" and
    sn: "snd (real_main e a (start f ns)) = SaveableTempDir_exit (save_dune_temps a) w2"
    by blast
  from ew assms(4) have r: "r = Inr (Some c)" by simp
  with rm have "fst (real_main e a (start f ns)) = Inr c" by (metis fst_conv old.sum.simps(6) option.sel)
  from main_Inr [OF this] have code: "fst (run e a f ns) = c" by (simp add: run_def)
  from resolve_loop_staged [OF rl [unfolded assms(1) [THEN eqTrueI]] staged_start]
  have stg: "staged f m w1" by simp
  from format_loop_frame [OF fl]
  have fr: "created w2 = created w1" "\<forall>q. Some q \<notin> snd ` set m \<longrightarrow> fs w2 q = fs w1 q"
    by simp_all
  from resolve_loop_frame [OF rl] have w1: "writes w1 = []" by (simp add: start_def)
  have keep: "fs (snd (run e a f ns)) q = f q \<and> q \<notin> fst ` set (writes (snd (run e a f ns)))"
    if "f q \<noteq> None" for q
  proof -
    note nt = staged_not_temp [OF stg that]
    from nt fr have "fs (SaveableTempDir_exit (save_dune_temps a) w2) q = f q"
      by (simp add: SaveableTempDir_exit_other)
    moreover have "q \<notin> fst ` set (writes w2)"
    proof
      assume "q \<in> fst ` set (writes w2)"
      then obtain s' where "(q, s') \<in> set (writes w2)" by auto
      from format_loop_writes [OF fl this] w1 nt(1) show False by simp
    qed
    ultimately show ?thesis
      by (simp add: run_def main_snd sn SaveableTempDir_exit_frame)
  qed
  with code assms(2) valid_dune_file_exists show ?thesis by blast
qed

theorem failed_format_leaves_originals_untouched_witness:
  "in_place (ex_args True [''dune'', ''dune-project''])
   \<and> valid_dune_file ex_fs ''dune'' \<and> valid_dune_file ex_fs ''dune-project''
   \<and> dune_files (ex_args True [''dune'', ''dune-project'']) = [''dune'', ''dune-project'']
   \<and> (''dune-project'', Completed 2 ''Error: unclosed parenthesis'')
        \<in> set (calls (snd (run ex_env (ex_args True [''dune'', ''dune-project'']) ex_fs ex_names)))
   \<and> fst (run ex_env (ex_args True [''dune'', ''dune-project'']) ex_fs ex_names) = 2
   \<and> fs (snd (run ex_env (ex_args True [''dune'', ''dune-project'']) ex_fs ex_names)) ''dune''
        = ex_fs ''dune''
   \<and> fs (snd (run ex_env (ex_args True [''dune'', ''dune-project'']) ex_fs ex_names)) ''dune-project''
        = ex_fs ''dune-project''"
proof -
  have h1: "in_place (ex_args True [''dune'', ''dune-project''])" by (simp add: ex_args_def)
  have h2: "\<forall>q \<in> set (dune_files (ex_args True [''dune'', ''dune-project''])). valid_dune_file ex_fs q"
    by (simp add: ex_args_def valid_dune_file_def get_dune_file_path_def isfile_def
        access_R_OK_def access_W_OK_def basename_def dune_file_names_def ex_fs_def)
  have h3: "(''dune-project'', Completed 2 ''Error: unclosed parenthesis'')
        \<in> set (calls (snd (run ex_env (ex_args True [''dune'', ''dune-project'']) ex_fs ex_names)))"
    by (simp add: run_defs ex_defs loop_simps)
  have h4: "(2::int) \<noteq> 0" by simp
  have h5: "''dune'' \<in> set (dune_files (ex_args True [''dune'', ''dune-project'']))"
    "''dune-project'' \<in> set (dune_files (ex_args True [''dune'', ''dune-project'']))"
    by (simp_all add: ex_args_def)
  have h6: "dune_files (ex_args True [''dune'', ''dune-project'']) = [''dune'', ''dune-project'']"
    by (simp add: ex_args_def)
  from h2 h5 have h7: "valid_dune_file ex_fs ''dune''" "valid_dune_file ex_fs ''dune-project''"
    by blast+
  note t = failed_format_leaves_originals_untouched [OF h1 h2 h3 h4]
  from t h5 h1 h3 h6 h7 show ?thesis by blast
qed

subsection \<open>Runs that succeed\<close>

lemma success_run:
  assumes "\<not> version a" "fst (real_main e a w) = Inr 0"
  shows "\<exists>m w1 w2. resolve_loop (tmp_dir e) (in_place a) (dune_files a) [] w = (Inr m, w1)
    \<and> format_loop e (in_place a) m None w1 = (Inr None, w2)
    \<and> map fst m = insertion_order (dune_files a)
    \<and> (if in_place a
        then \<exists>w3 u. commit_loop m w2 = (Inr u, w3)
          \<and> snd (real_main e a w) = SaveableTempDir_exit (save_dune_temps a) w3
        else snd (real_main e a w) = SaveableTempDir_exit (save_dune_temps a) w2)"
proof -
  obtain r1 w1 where rl: "resolve_loop (tmp_dir e) (in_place a) (dune_files a) [] w = (r1, w1)"
    by (cases "resolve_loop (tmp_dir e) (in_place a) (dune_files a) [] w")
  show ?thesis
  proof (cases r1)
    case (Inl x)
    from real_main_resolve_Inl [OF assms(1) rl [unfolded Inl]] assms(2) show ?thesis by simp
  next
    case (Inr m)
    note rl' = rl [unfolded Inr]
    from resolve_loop_keys [OF rl']
    have keys: "map fst m = insertion_order (dune_files a)" by (simp add: insertion_order_def)
    obtain r2 w2 where fl: "format_loop e (in_place a) m None w1 = (r2, w2)"
      by (cases "format_loop e (in_place a) m None w1")
    have r2: "r2 = Inr None"
    proof (rule ccontr)
      assume ne: "r2 \<noteq> Inr None"
      from real_main_format_stops [OF assms(1) rl' fl ne] assms(2) format_loop_not_zero [OF fl] ne
      show False by (cases r2) auto
    qed
    note fl' = fl [unfolded r2]
    show ?thesis
    proof (cases "in_place a")
      case False
      from real_main_stream_done [OF assms(1) False rl' fl'] rl' fl' keys False
      show ?thesis by simp
    next
      case True
      obtain r3 w3 where cl: "commit_loop m w2 = (r3, w3)" by (cases "commit_loop m w2")
      from real_main_commit [OF assms(1) True rl' fl' cl] assms(2)
      obtain u where "r3 = Inr u"
        and "snd (real_main e a w) = SaveableTempDir_exit (save_dune_temps a) w3"
        by (cases r3) auto
      with rl' fl' keys True cl show ?thesis by auto
    qed
  qed
qed

lemma real_main_interrupt:
  assumes "\<not> version a" "fst (real_main e a w) = Inl x" "\<not> is_Exception x"
  shows "\<exists>q \<in> set (dune_files a). format_dune_file e q = Raised x"
proof -
  obtain r1 w1 where rl: "resolve_loop (tmp_dir e) (in_place a) (dune_files a) [] w = (r1, w1)"
    by (cases "resolve_loop (tmp_dir e) (in_place a) (dune_files a) [] w")
  show ?thesis
  proof (cases r1)
    case (Inl y)
    from real_main_resolve_Inl [OF assms(1) rl [unfolded Inl]] assms(2) have "y = x" by simp
    with resolve_loop_Inl [OF rl [unfolded Inl]] assms(3) show ?thesis by auto
  next
    case (Inr m)
    note rl' = rl [unfolded Inr]
    from resolve_loop_keys [OF rl']
    have keys: "fst ` set m = set (dune_files a)"
      by (metis list.set_map set_foldl_add_key list.set(1) list.map(1) sup_bot_left)
    obtain r2 w2 where fl: "format_loop e (in_place a) m None w1 = (r2, w2)"
      by (cases "format_loop e (in_place a) m None w1")
    show ?thesis
    proof (cases "r2 = Inr None")
      case False
      from real_main_format_stops [OF assms(1) rl' fl False] assms(2)
      have "r2 = Inl x" by (cases r2) auto
      from format_loop_interrupt [OF fl [unfolded this] assms(3)] keys show ?thesis by auto
    next
      case True
      note fl' = fl [unfolded True]
      show ?thesis
      proof (cases "in_place a")
        case False
        from real_main_stream_done [OF assms(1) False rl' fl'] assms(2) show ?thesis by simp
      next
        case ip: True
        obtain r3 w3 where cl: "commit_loop m w2 = (r3, w3)" by (cases "commit_loop m w2")
        from real_main_commit [OF assms(1) ip rl' fl' cl] assms(2)
        have "r3 = Inl x" by (cases r3) auto
        from commit_loop_Inl [OF cl [unfolded this]] assms(3) show ?thesis by simp
      qed
    qed
  qed
qed

text \<open>What a successful run in place leaves: each key holds what the formatter printed
  for it, and the record of writes lists the temporary files, then the keys.\<close>

lemma in_place_success:
  assumes "\<not> version a" "in_place a" "\<forall>q \<in> set (dune_files a). valid_dune_file f q"
    "fst (real_main e a (start f ns)) = Inr 0"
  shows "(\<forall>q \<in> set (dune_files a).
            file_text (fs (snd (real_main e a (start f ns)))) q = Some (captured (format_dune_file e q)))
    \<and> (\<exists>ts. map fst (writes (snd (real_main e a (start f ns)))) = ts @ insertion_order (dune_files a)
          \<and> (\<forall>t \<in> set ts. f t = None))"
proof -
  from success_run [OF assms(1,4)] assms(2) obtain m w1 w2 w3 u where
    rl: "resolve_loop (tmp_dir e) True (dune_files a) [] (start f ns) = (Inr m, w1)" and
    fl: "format_loop e True m None w1 = (Inr None, w2)" and
    keys: "map fst m = insertion_order (dune_files a)" and
    cl: "commit_loop m w2 = (Inr u, w3)" and
    sn: "snd (real_main e a (start f ns)) = SaveableTempDir_exit (save_dune_temps a) w3"
    by auto
  from resolve_loop_staged [OF rl staged_start] have stg: "staged f m w1" by simp
  then have dk: "distinct (map fst m)" and dv: "distinct (map snd m)"
    and vals: "\<forall>v \<in> snd ` set m. \<exists>t. v = Some t \<and> t \<in> set (created w1)"
    and cr: "\<forall>t \<in> set (created w1). f t = None \<and> fs w1 t \<noteq> None"
    by (simp_all add: staged_def)
  from keys have kset: "fst ` set m = set (dune_files a)"
    by (metis list.set_map set_insertion_order)
  with assms(3) valid_dune_file_exists have kex: "\<forall>k \<in> fst ` set m. f k \<noteq> None" by blast
  have tk: "\<forall>t. Some t \<in> snd ` set m \<longrightarrow> t \<notin> fst ` set m"
    using vals cr kex by force
  from format_loop_staged [OF fl dv] have
    st: "\<forall>kv \<in> set m. \<exists>t wr. snd kv = Some t
          \<and> fs w2 t = Some (Regular (captured (format_dune_file e (fst kv))) True wr)" and
    wr2: "writes w2 = writes w1 @ map (\<lambda>kv. (the (snd kv), captured (format_dune_file e (fst kv)))) m"
    by blast+
  from commit_loop_success [OF cl dk tk] have
    cm: "\<forall>kv \<in> set m. \<exists>t s. snd kv = Some t \<and> file_text (fs w2) t = Some s
            \<and> file_text (fs w3) (fst kv) = Some s" and
    wr3: "writes w3 = writes w2 @ map (\<lambda>kv. (fst kv, the (file_text (fs w2) (the (snd kv))))) m"
    by blast+
  from format_loop_frame [OF fl] commit_loop_frame [OF cl]
  have cr3: "created w3 = created w1" by simp
  from resolve_loop_frame [OF rl] have wr1: "writes w1 = []" by (simp add: start_def)
  have a: "file_text (fs (snd (real_main e a (start f ns)))) q = Some (captured (format_dune_file e q))"
    if q: "q \<in> set (dune_files a)" for q
  proof -
    from q kset have "q \<in> fst ` set m" by simp
    then obtain kv where kv: "kv \<in> set m" "fst kv = q" by (metis imageE)
    from st kv obtain t wr where t: "snd kv = Some t"
      "fs w2 t = Some (Regular (captured (format_dune_file e q)) True wr)" by blast
    from cm kv t(1) obtain s where s: "file_text (fs w2) t = Some s" "file_text (fs w3) q = Some s"
      by force
    from t(2) s(1) have "s = captured (format_dune_file e q)" by (simp add: file_text_def)
    with s(2) have c: "file_text (fs w3) q = Some (captured (format_dune_file e q))" by simp
    from q assms(3) valid_dune_file_exists have "f q \<noteq> None" by blast
    with cr cr3 have "q \<notin> set (created w3)" by auto
    from SaveableTempDir_exit_other [OF this] c sn show ?thesis by (simp add: file_text_def)
  qed
  have "map fst (writes w3) = map (\<lambda>kv. the (snd kv)) m @ map fst m"
    by (simp add: wr3 wr2 wr1 comp_def)
  moreover have "\<forall>t \<in> set (map (\<lambda>kv. the (snd kv)) m). f t = None"
    using vals cr by force
  ultimately have b: "\<exists>ts. map fst (writes (snd (real_main e a (start f ns)))) = ts @ insertion_order (dune_files a)
          \<and> (\<forall>t \<in> set ts. f t = None)"
    using keys sn by (metis SaveableTempDir_exit_frame(3))
  from a b show ?thesis by blast
qed

lemma run_calls_distinct: "distinct (map fst (calls (snd (run e a f ns))))"
proof (cases "version a")
  case True
  from real_main_version_calls [OF this, of e "start f ns"] show ?thesis
    by (simp add: run_def main_calls start_def)
next
  case False
  obtain r1 w1 where rl: "resolve_loop (tmp_dir e) (in_place a) (dune_files a) [] (start f ns) = (r1, w1)"
    by (cases "resolve_loop (tmp_dir e) (in_place a) (dune_files a) [] (start f ns)")
  from resolve_loop_frame [OF rl] have c1: "calls w1 = []" by (simp add: start_def)
  show ?thesis
  proof (cases r1)
    case (Inl x)
    from real_main_resolve_Inl [OF False rl [unfolded Inl]] c1 show ?thesis
      by (simp add: run_def main_calls SaveableTempDir_exit_frame)
  next
    case (Inr m)
    obtain r2 w2 where fl: "format_loop e (in_place a) m None w1 = (r2, w2)"
      by (cases "format_loop e (in_place a) m None w1")
    from resolve_loop_keys [OF rl [unfolded Inr]]
    have "distinct (map fst m)" by (simp add: foldl_add_key_distinct)
    then have d: "distinct (take n (map fst m))" for n by simp
    from format_loop_calls [OF fl] c1 obtain n where
      "calls w2 = map (\<lambda>kv. (fst kv, format_dune_file e (fst kv))) (take n m)" by auto
    then have "map fst (calls w2) = take n (map fst m)" by (simp add: comp_def take_map)
    with d real_main_calls [OF False rl [unfolded Inr] fl] show ?thesis
      by (simp add: run_def main_calls)
  qed
qed

lemma stream_success_stdout:
  assumes "\<not> version a" "\<not> in_place a" "fst (real_main e a (start f ns)) = Inr 0"
  shows "stdout (snd (run e a f ns))
    = concat (map (\<lambda>q. captured (format_dune_file e q)) (insertion_order (dune_files a)))"
proof -
  from success_run [OF assms(1,3)] assms(2) obtain m w1 w2 where
    rl: "resolve_loop (tmp_dir e) (in_place a) (dune_files a) [] (start f ns) = (Inr m, w1)" and
    fl: "format_loop e (in_place a) m None w1 = (Inr None, w2)" and
    keys: "map fst m = insertion_order (dune_files a)" and
    sn: "snd (real_main e a (start f ns)) = SaveableTempDir_exit (save_dune_temps a) w2"
    by auto
  from resolve_loop_frame [OF rl] have "stdout w1 = []" by (simp add: start_def)
  with format_loop_success [OF fl] assms(2)
  have "stdout w2 = concat (map (\<lambda>kv. captured (format_dune_file e (fst kv))) m)" by simp
  also have "\<dots> = concat (map (\<lambda>q. captured (format_dune_file e q)) (map fst m))"
    by (simp add: comp_def)
  finally show ?thesis
    by (simp add: keys run_def main_snd sn SaveableTempDir_exit_frame)
qed

text \<open>
  C2. In place, for valid input files whose formatter calls all complete with code 0,
  after a run with exit code 0 the text of each input file is the standard output
  captured from the formatter for it.
\<close>

theorem in_place_success_writes_formatter_output:
  assumes "\<not> version a" "in_place a" "\<forall>q \<in> set (dune_files a). valid_dune_file f q"
    "\<forall>q \<in> set (dune_files a). \<exists>out. format_dune_file e q = Completed 0 out"
    "fst (run e a f ns) = 0"
  shows "\<forall>q \<in> set (dune_files a).
    file_text (fs (snd (run e a f ns))) q = Some (captured (format_dune_file e q))"
proof -
  have "fst (real_main e a (start f ns)) = Inr 0"
  proof (cases "fst (real_main e a (start f ns))")
    case (Inr c)
    from main_Inr [OF this] assms(5) Inr show ?thesis by (simp add: run_def)
  next
    case (Inl x)
    from main_Inl [OF this] assms(5) have "\<not> is_Exception x"
      by (auto simp: run_def split: if_splits)
    from real_main_interrupt [OF assms(1) Inl this] assms(4) show ?thesis by force
  qed
  from in_place_success [OF assms(1,2,3) this] show ?thesis by (simp add: run_def main_snd)
qed

theorem in_place_success_writes_formatter_output_witness:
  "\<not> version (ex_args True [''dune'', ''src/dune'']) \<and> in_place (ex_args True [''dune'', ''src/dune''])
   \<and> dune_files (ex_args True [''dune'', ''src/dune'']) = [''dune'', ''src/dune'']
   \<and> valid_dune_file ex_fs ''dune'' \<and> valid_dune_file ex_fs ''src/dune''
   \<and> format_dune_file ex_env ''dune'' = Completed 0 ''(library (name foo))''
   \<and> format_dune_file ex_env ''src/dune'' = Completed 0 ''(executable (name main))''
   \<and> fst (run ex_env (ex_args True [''dune'', ''src/dune'']) ex_fs ex_names) = 0
   \<and> file_text (fs (snd (run ex_env (ex_args True [''dune'', ''src/dune'']) ex_fs ex_names))) ''dune''
       = Some ''(library (name foo))''
   \<and> file_text (fs (snd (run ex_env (ex_args True [''dune'', ''src/dune'']) ex_fs ex_names))) ''src/dune''
       = Some ''(executable (name main))''"
proof -
  have h1: "\<not> version (ex_args True [''dune'', ''src/dune''])" by (simp add: ex_args_def)
  have h2: "in_place (ex_args True [''dune'', ''src/dune''])" by (simp add: ex_args_def)
  have h0: "dune_files (ex_args True [''dune'', ''src/dune'']) = [''dune'', ''src/dune'']"
    by (simp add: ex_args_def)
  have v: "valid_dune_file ex_fs ''dune''" "valid_dune_file ex_fs ''src/dune''"
    by (simp_all add: valid_dune_file_def get_dune_file_path_def isfile_def
        access_R_OK_def access_W_OK_def basename_def dune_file_names_def ex_fs_def)
  have c: "format_dune_file ex_env ''dune'' = Completed 0 ''(library (name foo))''"
    "format_dune_file ex_env ''src/dune'' = Completed 0 ''(executable (name main))''"
    by (simp_all add: ex_env_def ex_format_def)
  from v h0 have h3: "\<forall>q \<in> set (dune_files (ex_args True [''dune'', ''src/dune''])). valid_dune_file ex_fs q"
    by simp
  from c h0 have h4: "\<forall>q \<in> set (dune_files (ex_args True [''dune'', ''src/dune''])).
      \<exists>out. format_dune_file ex_env q = Completed 0 out" by simp
  have h5: "fst (run ex_env (ex_args True [''dune'', ''src/dune'']) ex_fs ex_names) = 0"
    by (simp add: run_defs ex_defs loop_simps)
  note t = in_place_success_writes_formatter_output [OF h1 h2 h3 h4 h5]
  from t h0 c have
    "file_text (fs (snd (run ex_env (ex_args True [''dune'', ''src/dune'']) ex_fs ex_names))) ''dune''
       = Some ''(library (name foo))''"
    "file_text (fs (snd (run ex_env (ex_args True [''dune'', ''src/dune'']) ex_fs ex_names))) ''src/dune''
       = Some ''(executable (name main))''"
    by simp_all
  with h1 h2 h0 v c h5 show ?thesis by blast
qed

text \<open>
  C9. The paths given to the formatter in a run are pairwise different, however the
  run ends. When \<^verbatim>\<open>real_main\<close> returns 0 on valid input files, they are the input paths in
  the order of first occurrence, so a path named several times is formatted exactly
  once; its output is printed once (stream mode), or one text is written to it and that
  is the formatter's output for it (in place).
\<close>

theorem repeated_path_is_processed_once:
  "distinct (map fst (calls (snd (run e a f ns))))
   \<and> (\<not> version a \<longrightarrow> (\<forall>q \<in> set (dune_files a). valid_dune_file f q)
        \<longrightarrow> fst (real_main e a (start f ns)) = Inr 0 \<longrightarrow> p \<in> set (dune_files a)
        \<longrightarrow> map fst (calls (snd (run e a f ns))) = insertion_order (dune_files a)
          \<and> count_list (insertion_order (dune_files a)) p = 1
          \<and> count_list (map fst (calls (snd (run e a f ns)))) p = 1
          \<and> (\<not> in_place a \<longrightarrow>
                stdout (snd (run e a f ns))
                  = concat (map (\<lambda>q. captured (format_dune_file e q)) (insertion_order (dune_files a))))
          \<and> (in_place a \<longrightarrow>
                count_list (map fst (writes (snd (run e a f ns)))) p = 1
                \<and> file_text (fs (snd (run e a f ns))) p = Some (captured (format_dune_file e p))))"
proof -
  have main: "map fst (calls (snd (run e a f ns))) = insertion_order (dune_files a)
          \<and> count_list (insertion_order (dune_files a)) p = 1
          \<and> count_list (map fst (calls (snd (run e a f ns)))) p = 1
          \<and> (\<not> in_place a \<longrightarrow>
                stdout (snd (run e a f ns))
                  = concat (map (\<lambda>q. captured (format_dune_file e q)) (insertion_order (dune_files a))))
          \<and> (in_place a \<longrightarrow>
                count_list (map fst (writes (snd (run e a f ns)))) p = 1
                \<and> file_text (fs (snd (run e a f ns))) p = Some (captured (format_dune_file e p)))"
    if nv: "\<not> version a" and valid: "\<forall>q \<in> set (dune_files a). valid_dune_file f q"
      and ok: "fst (real_main e a (start f ns)) = Inr 0" and p: "p \<in> set (dune_files a)"
  proof -
    from success_run [OF nv ok] obtain m w1 w2 where
      rl: "resolve_loop (tmp_dir e) (in_place a) (dune_files a) [] (start f ns) = (Inr m, w1)" and
      fl: "format_loop e (in_place a) m None w1 = (Inr None, w2)" and
      keys: "map fst m = insertion_order (dune_files a)"
      by blast
    from resolve_loop_frame [OF rl] have c1: "calls w1 = []" by (simp add: start_def)
    from format_loop_success [OF fl] c1
    have "map fst (calls w2) = map fst m" by (simp add: comp_def)
    with real_main_calls [OF nv rl fl] keys
    have calls: "map fst (calls (snd (run e a f ns))) = insertion_order (dune_files a)"
      by (simp add: run_def main_calls)
    from p have once: "count_list (insertion_order (dune_files a)) p = 1"
      by (simp add: count_list_distinct insertion_order_distinct set_insertion_order)
    have stream: "stdout (snd (run e a f ns))
        = concat (map (\<lambda>q. captured (format_dune_file e q)) (insertion_order (dune_files a)))"
      if "\<not> in_place a"
      using stream_success_stdout [OF nv that ok] .
    have inpl: "count_list (map fst (writes (snd (run e a f ns)))) p = 1
        \<and> file_text (fs (snd (run e a f ns))) p = Some (captured (format_dune_file e p))"
      if ip: "in_place a"
    proof -
      from in_place_success [OF nv ip valid ok] p obtain ts where
        ft: "file_text (fs (snd (real_main e a (start f ns)))) p = Some (captured (format_dune_file e p))"
        and ws: "map fst (writes (snd (real_main e a (start f ns)))) = ts @ insertion_order (dune_files a)"
        and ts: "\<forall>t \<in> set ts. f t = None"
        by blast
      from p valid valid_dune_file_exists have "f p \<noteq> None" by blast
      with ts have "p \<notin> set ts" by auto
      with ws once ft show ?thesis by (simp add: run_def main_snd)
    qed
    from calls once stream inpl show ?thesis by simp
  qed
  with run_calls_distinct [of e a f ns] show ?thesis by blast
qed

theorem repeated_path_is_processed_once_witness:
  "\<not> version (ex_args True [''dune'', ''src/dune'', ''dune''])
   \<and> in_place (ex_args True [''dune'', ''src/dune'', ''dune''])
   \<and> dune_files (ex_args True [''dune'', ''src/dune'', ''dune'']) = [''dune'', ''src/dune'', ''dune'']
   \<and> count_list (dune_files (ex_args True [''dune'', ''src/dune'', ''dune''])) ''dune'' = 2
   \<and> valid_dune_file ex_fs ''dune'' \<and> valid_dune_file ex_fs ''src/dune''
   \<and> fst (real_main ex_env (ex_args True [''dune'', ''src/dune'', ''dune'']) (start ex_fs ex_names)) = Inr 0
   \<and> map fst (calls (snd (run ex_env (ex_args True [''dune'', ''src/dune'', ''dune'']) ex_fs ex_names)))
       = [''dune'', ''src/dune'']
   \<and> count_list (map fst (calls (snd (run ex_env (ex_args True [''dune'', ''src/dune'', ''dune''])
          ex_fs ex_names)))) ''dune'' = 1
   \<and> count_list (map fst (writes (snd (run ex_env (ex_args True [''dune'', ''src/dune'', ''dune''])
          ex_fs ex_names)))) ''dune'' = 1
   \<and> file_text (fs (snd (run ex_env (ex_args True [''dune'', ''src/dune'', ''dune'']) ex_fs ex_names)))
        ''dune'' = Some ''(library (name foo))''
   \<and> fst (real_main ex_env (ex_args False [''dune'', ''src/dune'', ''dune'']) (start ex_fs ex_names)) = Inr 0
   \<and> stdout (snd (run ex_env (ex_args False [''dune'', ''src/dune'', ''dune'']) ex_fs ex_names))
       = ''(library (name foo))(executable (name main))''"
proof -
  let ?a = "ex_args True [''dune'', ''src/dune'', ''dune'']"
  let ?b = "ex_args False [''dune'', ''src/dune'', ''dune'']"
  have h1: "\<not> version ?a" "\<not> version ?b" "in_place ?a" "\<not> in_place ?b"
    by (simp_all add: ex_args_def)
  have h0: "dune_files ?a = [''dune'', ''src/dune'', ''dune'']"
    "dune_files ?b = [''dune'', ''src/dune'', ''dune'']"
    by (simp_all add: ex_args_def)
  have v: "valid_dune_file ex_fs ''dune''" "valid_dune_file ex_fs ''src/dune''"
    by (simp_all add: valid_dune_file_def get_dune_file_path_def isfile_def
        access_R_OK_def access_W_OK_def basename_def dune_file_names_def ex_fs_def)
  from v h0 have h3: "\<forall>q \<in> set (dune_files ?a). valid_dune_file ex_fs q"
    "\<forall>q \<in> set (dune_files ?b). valid_dune_file ex_fs q" by simp_all
  have h4: "fst (real_main ex_env ?a (start ex_fs ex_names)) = Inr 0"
    by (simp add: run_defs ex_defs loop_simps)
  have h5: "fst (real_main ex_env ?b (start ex_fs ex_names)) = Inr 0"
    by (simp add: run_defs ex_defs loop_simps)
  from h0 have hp: "''dune'' \<in> set (dune_files ?a)" "''dune'' \<in> set (dune_files ?b)" by simp_all
  have io: "insertion_order [''dune'', ''src/dune'', ''dune''] = [''dune'', ''src/dune'']"
    by (simp add: insertion_order_def add_key_def)
  have c2: "count_list (dune_files ?a) ''dune'' = 2" by (simp add: h0)
  have cp: "captured (format_dune_file ex_env ''dune'') = ''(library (name foo))''"
    "captured (format_dune_file ex_env ''src/dune'') = ''(executable (name main))''"
    by (simp_all add: ex_env_def ex_format_def)
  note ta = repeated_path_is_processed_once [of ex_env ?a ex_fs ex_names "''dune''"]
  note tb = repeated_path_is_processed_once [of ex_env ?b ex_fs ex_names "''dune''"]
  from ta h1(1,3) h3(1) h4 hp(1) have a:
    "map fst (calls (snd (run ex_env ?a ex_fs ex_names))) = insertion_order (dune_files ?a)"
    "count_list (map fst (calls (snd (run ex_env ?a ex_fs ex_names)))) ''dune'' = 1"
    "count_list (map fst (writes (snd (run ex_env ?a ex_fs ex_names)))) ''dune'' = 1"
    "file_text (fs (snd (run ex_env ?a ex_fs ex_names))) ''dune''
      = Some (captured (format_dune_file ex_env ''dune''))"
    by blast+
  from tb h1(2,4) h3(2) h5 hp(2) have b:
    "stdout (snd (run ex_env ?b ex_fs ex_names))
      = concat (map (\<lambda>q. captured (format_dune_file ex_env q)) (insertion_order (dune_files ?b)))"
    by blast
  from a(1) have a1: "map fst (calls (snd (run ex_env ?a ex_fs ex_names))) = [''dune'', ''src/dune'']"
    by (simp only: h0 io)
  from a(4) have a4: "file_text (fs (snd (run ex_env ?a ex_fs ex_names))) ''dune''
      = Some ''(library (name foo))''" by (simp only: cp)
  from b have b1: "stdout (snd (run ex_env ?b ex_fs ex_names))
      = ''(library (name foo))(executable (name main))''"
    by (simp add: h0 io cp)
  from h1 h0(1) c2 v h4 h5 a1 a(2,3) a4 b1 show ?thesis by blast
qed

end
